theory Spec2Isabelle
  imports Complex_Main "HOL-Library.Word" "HOL-Library.AList"
begin

unbundle bit_operations_syntax

section \<open>Values, samples and driver state\<close>

text \<open>
  The two drivers of this development are \<^verbatim>\<open>MPSClient\<close> (MarkPrintServer, frames
  \<^verbatim>\<open>P001 + 4-byte length + payload\<close>) and \<^verbatim>\<open>EasyDrvClient\<close> (PAC controllers,
  frames \<^verbatim>\<open>'s' + status + index + 2-byte length + payload\<close>, payload a Lua script).
  Both keep their state in closure variables; the model keeps it in one record and passes
  it explicitly.

  JavaScript values that the drivers store: \<^verbatim>\<open>undefined\<close> is \<open>None\<close> of \<open>js option\<close>.
  Numbers are opaque leaves (the modelled code does no arithmetic on them), a character
  of a string stands for one code unit. \<open>JArr\<close> is
  an array as \<^verbatim>\<open>JSON.parse\<close> gives it, \<open>JFun\<close> a built-in function, named by where the
  global environment holds it. \<open>JObj es p\<close> is an object with the own properties \<open>es\<close>, in
  insertion order, and the prototype \<open>p\<close>: \<open>None\<close> is \<^verbatim>\<open>Object.prototype\<close>, as an object
  literal and \<^verbatim>\<open>JSON.parse\<close> set it, \<open>Some JNull\<close> is no prototype, \<open>Some q\<close> the object \<open>q\<close>.
\<close>

type_synonym byte = "8 word"

datatype js = JNull | JBool bool | JNum real | JStr string | JFun string
  | JArr "js list" | JObj "(string \<times> js) list" "js option"

abbreviation plain :: "(string \<times> js) list \<Rightarrow> js" where
  "plain es \<equiv> JObj es None"

datatype jserror = TypeError | StackOverflow | Failure string

datatype perr = InvalidFrameLength int | AnswerTooLarge | PacErrorCode nat

datatype 'a promise = Resolved 'a | Rejected string

record daqcfg =
  daq_enabled :: bool
  daq_changed :: bool
  daq_interval :: nat

record tag =
  t_name :: string
  t_address :: string
  t_type :: string
  t_daq :: daqcfg

record sample =
  s_id :: string
  s_value :: js
  s_rawValue :: js
  s_type :: string
  s_changed :: bool
  s_timestamp :: nat
  s_daq :: daqcfg

datatype event =
  StatusChanged string
| ValueChanged "(string \<times> sample) list"

datatype logline = Info string | Warn string | Err string

record sock =
  destroyed :: bool

record driver =
  data_tags :: "(string \<times> tag) list"
  socket :: "sock option"
  connected_flag :: bool
  working :: bool
  overloading_cnt :: nat
  lastStatus :: string
  lastTimestampValue :: "nat option"
  errRetryCount :: nat
  varsValue :: "(string \<times> sample) list"
  addDaq :: bool
  events :: "event list"
  daqCalls :: "(string \<times> sample) list list"
  sent :: "byte list list"
  logged :: "logline list"
  packetIndex :: nat
  recvBuffer :: "byte list"
  luaState :: "(string \<times> js) list"
  luaEngine :: bool
  gotDevices :: bool
  pacInfoReceived :: bool
  browseData :: "js option"
  deviceStates :: "(string \<times> js) list"

text \<open>
  \<open>events\<close> is the trace of what was emitted on the event bus (a \<open>ValueChanged\<close> entry
  holds the cache as the listener sees it at emission), \<open>daqCalls\<close> the trace of
  \<^verbatim>\<open>this.addDaq(changed, ...)\<close> calls, \<open>sent\<close> the frames written to the main socket,
  \<open>logged\<close> the logger calls. \<open>addDaq\<close> says whether a DAQ function is bound.
  \<open>data_tags\<close> lists \<^verbatim>\<open>data.tags\<close> in the order in which \<^verbatim>\<open>for (id in data.tags)\<close> yields
  it. \<open>luaState\<close> and \<open>deviceStates\<close> hold the own properties of the two objects of
  these names; both are created by an object literal, so their prototype is
  \<^verbatim>\<open>Object.prototype\<close>.
\<close>

section \<open>Buffers\<close>

definition slice :: "nat \<Rightarrow> nat \<Rightarrow> 'a list \<Rightarrow> 'a list" where
  "slice s e buf = take (e - s) (drop s buf)"

section \<open>MPSClient: frames\<close>

definition MAX_PAYLOAD_SIZE :: int where
  "MAX_PAYLOAD_SIZE = 10 * 1024 * 1024"

text \<open>
  \<^verbatim>\<open>_buildFrame\<close>: \<^verbatim>\<open>P001\<close>, the length big-endian in four bytes, the message bytes.
  \<^verbatim>\<open>(n >> k) & 0xFF\<close> works on the 32-bit value of \<open>n\<close>.
\<close>

definition lenByte :: "nat \<Rightarrow> nat \<Rightarrow> byte" where
  "lenByte k n = ucast (drop_bit k (word_of_nat n :: 32 word) AND 0xFF)"

definition buildFrame :: "byte list \<Rightarrow> byte list" where
  "buildFrame msgBuf =
     [0x50, 0x30, 0x30, 0x31,
      lenByte 24 (length msgBuf), lenByte 16 (length msgBuf),
      lenByte 8 (length msgBuf), lenByte 0 (length msgBuf)] @ msgBuf"

text \<open>
  \<^verbatim>\<open>(buf[4] << 24) | (buf[5] << 16) | (buf[6] << 8) | buf[7]\<close> is a signed 32-bit value in
  JavaScript: \<open>lenWord\<close> is the bit pattern, \<open>payloadLen\<close> its signed reading.
\<close>

definition lenWord :: "byte list \<Rightarrow> 32 word" where
  "lenWord buf = push_bit 24 (ucast (buf ! 4)) OR push_bit 16 (ucast (buf ! 5))
                 OR push_bit 8 (ucast (buf ! 6)) OR ucast (buf ! 7)"

definition payloadLen :: "byte list \<Rightarrow> int" where
  "payloadLen buf = sint (lenWord buf)"

definition hasPrefix :: "byte list \<Rightarrow> bool" where
  "hasPrefix buf \<longleftrightarrow> buf ! 0 = 0x50 \<and> buf ! 1 = 0x30 \<and> buf ! 2 = 0x30 \<and> buf ! 3 = 0x31"

text \<open>
  \<^verbatim>\<open>_tryParseFramedResponse\<close>. \<open>None\<close> is \<^verbatim>\<open>null\<close> (need more data), \<open>Inl\<close> is
  \<^verbatim>\<open>{error: ...}\<close>, \<open>Inr\<close> is \<^verbatim>\<open>{error: null, data: ...}\<close>. \<open>decode\<close> stands for
  \<^verbatim>\<open>iconv.decode(_, 'win1251')\<close>.
\<close>

definition tryParseFramedResponse :: "(byte list \<Rightarrow> 's) \<Rightarrow> byte list \<Rightarrow> (perr + 's) option" where
  "tryParseFramedResponse decode buf =
     (if length buf < 8 then None
      else if hasPrefix buf then
        (if payloadLen buf < 0 \<or> payloadLen buf > MAX_PAYLOAD_SIZE
         then Some (Inl (InvalidFrameLength (payloadLen buf)))
         else if int (length buf) < 8 + payloadLen buf then None
         else Some (Inr (decode (slice 8 (8 + nat (payloadLen buf)) buf))))
      else Some (Inr (decode buf)))"

text \<open>
  The \<^verbatim>\<open>data\<close> handler of \<^verbatim>\<open>_sendFramed\<close>: the request keeps its own buffer; once a
  result is there the handler is removed, so later chunks do not reach it.
\<close>

definition mps_onData ::
  "(byte list \<Rightarrow> 's) \<Rightarrow> byte list \<times> (perr + 's) option \<Rightarrow> byte list \<Rightarrow> byte list \<times> (perr + 's) option" where
  "mps_onData decode rq chunk =
     (case snd rq of
        Some r \<Rightarrow> rq
      | None \<Rightarrow> (fst rq @ chunk, tryParseFramedResponse decode (fst rq @ chunk)))"

definition mps_receive :: "(byte list \<Rightarrow> 's) \<Rightarrow> byte list list \<Rightarrow> (perr + 's) option" where
  "mps_receive decode chunks = snd (foldl (mps_onData decode) ([], None) chunks)"

section \<open>EasyDrvClient: frames\<close>

definition FRAME_MARKER :: byte where "FRAME_MARKER = 0x73"
definition SERVICE_ID :: byte where "SERVICE_ID = 1"
definition FRAME_SINGLE :: byte where "FRAME_SINGLE = 1"
definition HEADER_SIZE :: nat where "HEADER_SIZE = 6"
definition RESP_HEADER_SIZE :: nat where "RESP_HEADER_SIZE = 5"
definition MAX_BUFFER_SIZE :: nat where "MAX_BUFFER_SIZE = 500 * 1024"
definition AKN_ERR :: byte where "AKN_ERR = 7"

text \<open>
  \<^verbatim>\<open>_sendFrame\<close> up to the write: rejected without a socket; otherwise the packet index
  moves on and the frame goes out. \<open>word_of_nat\<close> is the store of a number into a byte of
  a \<^verbatim>\<open>Buffer\<close>.
\<close>

definition sendFrame :: "byte list \<Rightarrow> driver \<Rightarrow> unit promise \<times> driver" where
  "sendFrame cmdData st =
     (case socket st of
        None \<Rightarrow> (Rejected ''socket not connected'', st)
      | Some s \<Rightarrow>
          if destroyed s then (Rejected ''socket not connected'', st)
          else
            (let pidx = (packetIndex st + 1) AND 0xFF;
                 dataLen = length cmdData;
                 frame = [FRAME_MARKER, SERVICE_ID, FRAME_SINGLE, word_of_nat pidx,
                          word_of_nat (drop_bit 8 dataLen AND 0xFF), word_of_nat (dataLen AND 0xFF)]
                         @ cmdData
             in (Resolved (), st\<lparr>packetIndex := pidx, sent := sent st @ [frame]\<rparr>)))"

text \<open>The loop that drops bytes until the buffer starts with the marker.\<close>

fun skipNonFramed :: "byte list \<Rightarrow> byte list" where
  "skipNonFramed [] = []"
| "skipNonFramed (b # bs) = (if b \<noteq> FRAME_MARKER then skipNonFramed bs else b # bs)"

text \<open>\<^verbatim>\<open>_tryDecompress\<close>; \<open>inflate\<close> stands for \<^verbatim>\<open>zlib.inflateSync\<close>, \<open>None\<close> when it throws.\<close>

definition tryDecompress :: "(byte list \<Rightarrow> byte list option) \<Rightarrow> byte list \<Rightarrow> byte list" where
  "tryDecompress inflate buf =
     (if buf = [] then buf else (case inflate buf of Some r \<Rightarrow> r | None \<Rightarrow> buf))"

definition answerSize :: "byte list \<Rightarrow> nat" where
  "answerSize buf = unat (buf ! 3) * 256 + unat (buf ! 4)"

text \<open>The packet index check inside \<^verbatim>\<open>_tryParseResponse\<close>: a mismatch is logged.\<close>

definition validatePacketIndex :: "byte list \<Rightarrow> driver \<Rightarrow> driver" where
  "validatePacketIndex buf st =
     (if unat (buf ! 2) \<noteq> packetIndex st
      then st\<lparr>logged := logged st @ [Warn ''packet index mismatch'']\<rparr> else st)"

text \<open>\<^verbatim>\<open>_tryParseResponse\<close>, on the driver's receive buffer.\<close>

definition tryParseResponse ::
  "(byte list \<Rightarrow> byte list option) \<Rightarrow> driver \<Rightarrow> (perr + byte list) option \<times> driver" where
  "tryParseResponse inflate st0 =
     (let st = st0\<lparr>recvBuffer := skipNonFramed (recvBuffer st0)\<rparr>; buf = recvBuffer st in
      if length buf < RESP_HEADER_SIZE then (None, st)
      else if buf ! 1 = AKN_ERR then
        (let errDataLen = answerSize buf; errTotalLen = RESP_HEADER_SIZE + errDataLen in
         if length buf < errTotalLen then (None, st)
         else (Some (Inl (PacErrorCode (if errDataLen > 0 then unat (buf ! 5) else 0))),
               st\<lparr>recvBuffer := drop errTotalLen buf\<rparr>))
      else
        (let st1 = validatePacketIndex buf st in
         if answerSize buf = 0
         then (Some (Inr []), st1\<lparr>recvBuffer := drop RESP_HEADER_SIZE buf\<rparr>)
         else if answerSize buf > MAX_BUFFER_SIZE
         then (Some (Inl AnswerTooLarge),
               st1\<lparr>logged := logged st1 @ [Warn ''answer too large''], recvBuffer := []\<rparr>)
         else
           (let totalNeeded = RESP_HEADER_SIZE + answerSize buf in
            if length buf < totalNeeded then (None, st1)
            else (Some (Inr (tryDecompress inflate (slice RESP_HEADER_SIZE totalNeeded buf))),
                  st1\<lparr>recvBuffer := drop totalNeeded buf\<rparr>))))"

text \<open>
  A response frame as the source documents it for the PAC side: marker, status, echoed
  packet index, length high byte, length low byte, payload. It is the frame that the
  statements about reading speak of; the length is below \<open>65536\<close> there.
\<close>

definition respFrame :: "byte \<Rightarrow> byte \<Rightarrow> byte list \<Rightarrow> byte list" where
  "respFrame status pidx payload =
     [FRAME_MARKER, status, pidx,
      word_of_nat (drop_bit 8 (length payload)), word_of_nat (length payload AND 0xFF)] @ payload"

text \<open>What the caller gets for such a frame: the error code, or the probed payload.\<close>

definition respResult :: "(byte list \<Rightarrow> byte list option) \<Rightarrow> byte \<Rightarrow> byte list \<Rightarrow> perr + byte list" where
  "respResult inflate status payload =
     (if status = AKN_ERR then Inl (PacErrorCode (case payload of [] \<Rightarrow> 0 | b # bs \<Rightarrow> unat b))
      else Inr (tryDecompress inflate payload))"

text \<open>The \<^verbatim>\<open>data\<close> handler of \<^verbatim>\<open>_sendFrame\<close>, removed once a result is there.\<close>

definition easy_onData ::
  "(byte list \<Rightarrow> byte list option) \<Rightarrow> driver \<times> (perr + byte list) option \<Rightarrow> byte list
     \<Rightarrow> driver \<times> (perr + byte list) option" where
  "easy_onData inflate rq chunk =
     (case snd rq of
        Some r \<Rightarrow> rq
      | None \<Rightarrow>
          (let res = tryParseResponse inflate ((fst rq)\<lparr>recvBuffer := recvBuffer (fst rq) @ chunk\<rparr>)
           in (snd res, fst res)))"

definition easy_receive ::
  "(byte list \<Rightarrow> byte list option) \<Rightarrow> driver \<Rightarrow> byte list list \<Rightarrow> driver \<times> (perr + byte list) option" where
  "easy_receive inflate st chunks = foldl (easy_onData inflate) (st, None) chunks"

section \<open>Reading and writing properties\<close>

text \<open>
  \<^verbatim>\<open>typeof v\<close> and the truth value of \<open>v\<close> in a condition.
\<close>

fun typeof :: "js option \<Rightarrow> string" where
  "typeof None = ''undefined''"
| "typeof (Some JNull) = ''object''"
| "typeof (Some (JBool b)) = ''boolean''"
| "typeof (Some (JNum n)) = ''number''"
| "typeof (Some (JStr s)) = ''string''"
| "typeof (Some (JFun f)) = ''function''"
| "typeof (Some (JArr xs)) = ''object''"
| "typeof (Some (JObj es p)) = ''object''"

fun truthy :: "js option \<Rightarrow> bool" where
  "truthy None = False"
| "truthy (Some JNull) = False"
| "truthy (Some (JBool b)) = b"
| "truthy (Some (JNum n)) = (n \<noteq> 0)"
| "truthy (Some (JStr s)) = (s \<noteq> [])"
| "truthy (Some v) = True"

text \<open>
  A property name that is an array index: decimal digits without a leading zero, below
  4294967295.
\<close>

definition isDigit :: "char \<Rightarrow> bool" where
  "isDigit c = (48 \<le> (of_char c :: nat) \<and> (of_char c :: nat) \<le> 57)"

definition arrayIndex :: "string \<Rightarrow> nat option" where
  "arrayIndex s =
     (if s = [] \<or> \<not> list_all isDigit s \<or> (length s > 1 \<and> hd s = CHR ''0'') then None
      else (let n = foldl (\<lambda>n c. 10 * n + (of_char c - 48)) 0 s
            in if n < 4294967295 then Some n else None))"

definition indexed :: "'a list \<Rightarrow> string \<Rightarrow> 'a option" where
  "indexed xs key =
     (case arrayIndex key of
        None \<Rightarrow> None
      | Some i \<Rightarrow> if i < length xs then Some (xs ! i) else None)"

text \<open>
  The members that every value inherits from the built-in prototypes. Nothing in the
  drivers removes or adds one, so these are the members that the engine provides: for
  \<^verbatim>\<open>Object.prototype\<close> the same in every Node.js release; for arrays, strings, numbers
  and booleans the lists are those of Node.js 18, and a later engine has more. All of
  them are functions; \<^verbatim>\<open>__proto__\<close>, an accessor of \<^verbatim>\<open>Object.prototype\<close>, is dealt with
  in \<open>getProp\<close> and \<open>setProp\<close>.
\<close>

definition protoEntries :: "string \<Rightarrow> string list \<Rightarrow> (string \<times> js) list" where
  "protoEntries cls names =
     (''constructor'', JFun cls) # map (\<lambda>n. (n, JFun (cls @ ''.prototype.'' @ n))) names"

definition objectEntries :: "(string \<times> js) list" where
  "objectEntries = protoEntries ''Object''
     [''__defineGetter__'', ''__defineSetter__'', ''hasOwnProperty'', ''__lookupGetter__'',
      ''__lookupSetter__'', ''isPrototypeOf'', ''propertyIsEnumerable'', ''toString'',
      ''valueOf'', ''toLocaleString'']"

definition arrayEntries :: "(string \<times> js) list" where
  "arrayEntries = protoEntries ''Array''
     [''at'', ''concat'', ''copyWithin'', ''fill'', ''find'', ''findIndex'', ''findLast'',
      ''findLastIndex'', ''lastIndexOf'', ''pop'', ''push'', ''reverse'', ''shift'',
      ''unshift'', ''slice'', ''sort'', ''splice'', ''includes'', ''indexOf'', ''join'',
      ''keys'', ''entries'', ''values'', ''forEach'', ''filter'', ''flat'', ''flatMap'',
      ''map'', ''every'', ''some'', ''reduce'', ''reduceRight'', ''toLocaleString'',
      ''toString'']"

definition stringEntries :: "(string \<times> js) list" where
  "stringEntries = protoEntries ''String''
     [''anchor'', ''at'', ''big'', ''blink'', ''bold'', ''charAt'', ''charCodeAt'',
      ''codePointAt'', ''concat'', ''endsWith'', ''fontcolor'', ''fontsize'', ''fixed'',
      ''includes'', ''indexOf'', ''italics'', ''lastIndexOf'', ''link'', ''localeCompare'',
      ''match'', ''matchAll'', ''normalize'', ''padEnd'', ''padStart'', ''repeat'',
      ''replace'', ''replaceAll'', ''search'', ''slice'', ''small'', ''split'', ''strike'',
      ''sub'', ''substr'', ''substring'', ''sup'', ''startsWith'', ''toString'', ''trim'',
      ''trimStart'', ''trimLeft'', ''trimEnd'', ''trimRight'', ''toLocaleLowerCase'',
      ''toLocaleUpperCase'', ''toLowerCase'', ''toUpperCase'', ''valueOf'']"

definition numberEntries :: "(string \<times> js) list" where
  "numberEntries = protoEntries ''Number''
     [''toExponential'', ''toFixed'', ''toPrecision'', ''toString'', ''valueOf'',
      ''toLocaleString'']"

definition booleanEntries :: "(string \<times> js) list" where
  "booleanEntries = protoEntries ''Boolean'' [''toString'', ''valueOf'']"

text \<open>
  The prototype objects themselves, which reading \<^verbatim>\<open>__proto__\<close> hands out.
  \<^verbatim>\<open>Object.prototype\<close> has no prototype and its own \<^verbatim>\<open>__proto__\<close> reads as \<^verbatim>\<open>null\<close>;
  \<^verbatim>\<open>Array.prototype\<close> and \<^verbatim>\<open>String.prototype\<close> have a \<^verbatim>\<open>length\<close> of 0.
\<close>

definition objectPrototype :: js where
  "objectPrototype = JObj (objectEntries @ [(''__proto__'', JNull)]) (Some JNull)"

definition arrayPrototype :: js where
  "arrayPrototype = JObj ((''length'', JNum 0) # arrayEntries) None"

definition stringPrototype :: js where
  "stringPrototype = JObj ((''length'', JNum 0) # stringEntries) None"

definition numberPrototype :: js where
  "numberPrototype = JObj numberEntries None"

definition booleanPrototype :: js where
  "booleanPrototype = JObj booleanEntries None"

text \<open>
  The search for a property along the prototype chain of a value, up to
  \<^verbatim>\<open>Object.prototype\<close>: an own property of the value or of an object of its chain
  (\<open>Own\<close>), none before \<^verbatim>\<open>Object.prototype\<close> is reached (\<open>AtObjectPrototype\<close>), or none
  and the chain ends without it (\<open>Absent\<close>). An array has its elements and \<^verbatim>\<open>length\<close>, a
  string its characters and \<^verbatim>\<open>length\<close>.
\<close>

datatype found = Own js | AtObjectPrototype | Absent

definition orElse :: "js option \<Rightarrow> (string \<times> js) list \<Rightarrow> string \<Rightarrow> found" where
  "orElse own entries key =
     (case own of
        Some v \<Rightarrow> Own v
      | None \<Rightarrow> (case map_of entries key of Some f \<Rightarrow> Own f | None \<Rightarrow> AtObjectPrototype))"

fun findProp :: "js \<Rightarrow> string \<Rightarrow> found" where
  "findProp (JObj es p) key =
     (case map_of es key of
        Some v \<Rightarrow> Own v
      | None \<Rightarrow> (case p of None \<Rightarrow> AtObjectPrototype | Some q \<Rightarrow> findProp q key))"
| "findProp (JArr xs) key =
     orElse (if key = ''length'' then Some (JNum (real (length xs))) else indexed xs key)
       arrayEntries key"
| "findProp (JStr s) key =
     orElse (if key = ''length'' then Some (JNum (real (length s)))
             else map_option (\<lambda>c. JStr [c]) (indexed s key))
       stringEntries key"
| "findProp (JNum n) key = orElse None numberEntries key"
| "findProp (JBool b) key = orElse None booleanEntries key"
| "findProp v key = Absent"

fun protoOf :: "js \<Rightarrow> js" where
  "protoOf (JObj es None) = objectPrototype"
| "protoOf (JObj es (Some q)) = q"
| "protoOf (JArr xs) = arrayPrototype"
| "protoOf (JStr s) = stringPrototype"
| "protoOf (JNum n) = numberPrototype"
| "protoOf (JBool b) = booleanPrototype"
| "protoOf v = JNull"

text \<open>
  \<^verbatim>\<open>v[key]\<close>: a \<^verbatim>\<open>TypeError\<close> on \<^verbatim>\<open>undefined\<close> and \<^verbatim>\<open>null\<close>; otherwise the property
  found along the chain, the member of \<^verbatim>\<open>Object.prototype\<close> when the chain gets there
  (\<^verbatim>\<open>__proto__\<close> answers with the prototype of \<open>v\<close>), or \<^verbatim>\<open>undefined\<close>. Of a function the
  drivers read one property only, \<^verbatim>\<open>Units\<close> in \<^verbatim>\<open>devState.Units\<close>, which no built-in
  function has; the members that functions do have are not listed, and \<open>getProp\<close> is used
  on a function for that key only.
\<close>

fun getProp :: "js option \<Rightarrow> string \<Rightarrow> jserror + js option" where
  "getProp None key = Inl TypeError"
| "getProp (Some JNull) key = Inl TypeError"
| "getProp (Some (JFun f)) key = Inr None"
| "getProp (Some v) key =
     Inr (case findProp v key of
            Own x \<Rightarrow> Some x
          | Absent \<Rightarrow> None
          | AtObjectPrototype \<Rightarrow>
              if key = ''__proto__'' then Some (protoOf v) else map_of objectEntries key)"

text \<open>
  \<^verbatim>\<open>target[key] = v\<close> for an object \<open>target\<close>; the value is the object afterwards. The
  assignment makes or replaces an own property, but for \<^verbatim>\<open>__proto__\<close> on an object that
  reaches the accessor of \<^verbatim>\<open>Object.prototype\<close>: there an object, a function or
  \<^verbatim>\<open>null\<close> becomes the prototype and any other value is dropped. The drivers assign
  to objects only.
\<close>

fun setProp :: "js \<Rightarrow> string \<Rightarrow> js \<Rightarrow> js" where
  "setProp (JObj es p) key v =
     (if key = ''__proto__'' \<and> findProp (JObj es p) key = AtObjectPrototype
      then (if v = JNull \<or> typeof (Some v) = ''object'' \<or> typeof (Some v) = ''function''
            then JObj es (Some v) else JObj es p)
      else JObj (AList.update key v es) p)"
| "setProp target key v = target"

text \<open>
  The order in which \<^verbatim>\<open>for (k in o)\<close> yields the own properties of an object that were
  inserted in the order \<open>ks\<close>: the array indices first, ascending, then the other names
  as inserted.
\<close>

definition forIn :: "string list \<Rightarrow> string list" where
  "forIn ks =
     sort_key (\<lambda>k. case arrayIndex k of Some i \<Rightarrow> i | None \<Rightarrow> 0)
       (filter (\<lambda>k. arrayIndex k \<noteq> None) ks)
       @ filter (\<lambda>k. arrayIndex k = None) ks"

section \<open>LuaEngine: reading the Lua state back\<close>

text \<open>
  A Lua value on the stack, and the tables of the Lua state: \<open>LTable r\<close> is a reference,
  the heap gives for a reference the key/value pairs in the order \<^verbatim>\<open>lua_next\<close> yields
  them. A table may contain a reference to itself or to a table that contains it.
  \<open>LOther\<close> stands for functions, userdata and threads.
\<close>

datatype lval = LNil | LBool bool | LNum real | LStr string | LTable nat | LOther

type_synonym lheap = "nat \<Rightarrow> (lval \<times> lval) list"

text \<open>
  What turns Lua strings and numbers into JavaScript: \<^verbatim>\<open>fengari.to_jsstring\<close>, which
  decodes the bytes of a Lua string as UTF-8 and throws when they are not (\<open>None\<close>),
  and the name under which JavaScript files a property whose key is a number.
\<close>

record luaconv =
  jsstring :: "string \<Rightarrow> string option"
  keyOf :: "real \<Rightarrow> string"

text \<open>
  The Lua stack. \<^verbatim>\<open>LuaEngine\<close> never calls \<^verbatim>\<open>lua_checkstack\<close>, so what it may push is
  what a new state guarantees, \<^verbatim>\<open>LUA_MINSTACK\<close> slots. fengari checks every push of the
  API (\<^verbatim>\<open>lua_getglobal\<close>, \<^verbatim>\<open>lua_pushnil\<close>, \<^verbatim>\<open>lua_next\<close>) against that limit and throws a
  JavaScript error when the slot is beyond it. \<open>used\<close> below is the number of slots in
  use; an error is thrown together with the number of slots that it leaves in use.
\<close>

definition LUA_MINSTACK :: nat where "LUA_MINSTACK = 20"

type_synonym thrown = "jserror \<times> nat"

text \<open>
  The key of an entry in \<^verbatim>\<open>_readTable\<close>, with the key and the value on the stack: a
  string, a number, or nothing for the keys that are skipped.
\<close>

fun tableKey :: "luaconv \<Rightarrow> lval \<Rightarrow> nat \<Rightarrow> thrown + string option" where
  "tableKey ks (LStr s) used =
     (case jsstring ks s of
        None \<Rightarrow> Inl (Failure ''invalid utf8'', used)
      | Some key \<Rightarrow> Inr (Some key))"
| "tableKey ks (LNum n) used = Inr (Some (keyOf ks n))"
| "tableKey ks k used = Inr None"

text \<open>
  \<^verbatim>\<open>_readStackValue\<close> and \<^verbatim>\<open>_readTable\<close>; \<open>readEntries\<close> is the \<^verbatim>\<open>while (lua_next ...)\<close>
  loop of \<^verbatim>\<open>_readTable\<close> with \<open>result\<close> as its accumulator. \<^verbatim>\<open>lua_pushnil\<close> takes a
  slot for the key, each \<^verbatim>\<open>lua_next\<close> that finds an entry one more for the value, which
  \<^verbatim>\<open>lua_pop\<close> gives back; the last \<^verbatim>\<open>lua_next\<close> gives back the slot of the key. \<open>Inl\<close> is
  what is thrown, which nothing catches before \<^verbatim>\<open>get\<close>.
\<close>

function readStackValue :: "luaconv \<Rightarrow> lheap \<Rightarrow> lval \<Rightarrow> nat \<Rightarrow> nat \<Rightarrow> thrown + js option"
  and readTable :: "luaconv \<Rightarrow> lheap \<Rightarrow> nat \<Rightarrow> nat \<Rightarrow> nat \<Rightarrow> thrown + js option"
  and readEntries :: "luaconv \<Rightarrow> lheap \<Rightarrow> (lval \<times> lval) list \<Rightarrow> nat \<Rightarrow> nat \<Rightarrow> js
                        \<Rightarrow> thrown + js option"
where
  "readStackValue ks L v depth used =
     (if depth > 10 then Inr None
      else (case v of
              LNil \<Rightarrow> Inr (Some JNull)
            | LBool b \<Rightarrow> Inr (Some (JBool b))
            | LNum n \<Rightarrow> Inr (Some (JNum n))
            | LStr s \<Rightarrow>
                (case jsstring ks s of
                   None \<Rightarrow> Inl (Failure ''invalid utf8'', used)
                 | Some str \<Rightarrow> Inr (Some (JStr str)))
            | LTable r \<Rightarrow> readTable ks L r (depth + 1) used
            | LOther \<Rightarrow> Inr None))"
| "readTable ks L r depth used =
     (if depth > 10 then Inr None
      else if used + 1 > LUA_MINSTACK then Inl (StackOverflow, used + 1)
      else readEntries ks L (L r) depth (used + 1) (plain []))"
| "readEntries ks L [] depth used result = Inr (Some result)"
| "readEntries ks L (kv # es) depth used result =
     (if used + 1 > LUA_MINSTACK then Inl (StackOverflow, used + 1)
      else (case tableKey ks (fst kv) (used + 1) of
              Inl e \<Rightarrow> Inl e
            | Inr None \<Rightarrow> readEntries ks L es depth used result
            | Inr (Some key) \<Rightarrow>
                (case readStackValue ks L (snd kv) depth (used + 1) of
                   Inl e \<Rightarrow> Inl e
                 | Inr None \<Rightarrow> readEntries ks L es depth used result
                 | Inr (Some val) \<Rightarrow> readEntries ks L es depth used (setProp result key val))))"
  by pat_completeness auto
termination
  by (relation "inv_image (less_than <*lex*> less_than <*lex*> less_than)
        (\<lambda>x. case x of
           Inl (ks, L, v, depth, used) \<Rightarrow> (11 - depth, 0 :: nat, 0 :: nat)
         | Inr (Inl (ks, L, r, depth, used)) \<Rightarrow> (11 - depth, 2, 0)
         | Inr (Inr (ks, L, es, depth, used, result)) \<Rightarrow> (11 - depth, 1, length es))")
    auto

text \<open>
  The Lua state after a response has been executed in it, as far as reading back goes:
  the tables, the value that \<^verbatim>\<open>lua_getglobal\<close> pushes for a name, and the number of
  stack slots in use (none in a new engine).

  \<^verbatim>\<open>LuaEngine.get\<close>: the global \<open>name\<close> is pushed and read at depth 0. When all goes well
  the value is popped again; when something is thrown, \<^verbatim>\<open>get\<close> catches it, returns
  \<^verbatim>\<open>undefined\<close> and pops nothing, so the slots in use stay as they were when it was
  thrown.
\<close>

record luavm =
  lua_heap :: lheap
  lua_globals :: "string \<Rightarrow> lval"
  lua_top :: nat

definition lua_get :: "luaconv \<Rightarrow> luavm \<Rightarrow> string \<Rightarrow> js option \<times> luavm" where
  "lua_get ks vm name =
     (if lua_top vm + 1 > LUA_MINSTACK then (None, vm\<lparr>lua_top := lua_top vm + 1\<rparr>)
      else (case readStackValue ks (lua_heap vm) (lua_globals vm name) 0 (lua_top vm + 1) of
              Inl e \<Rightarrow> (None, vm\<lparr>lua_top := snd e\<rparr>)
            | Inr result \<Rightarrow> (result, vm)))"

text \<open>
  \<^verbatim>\<open>_extractLuaState\<close>: only a table \<^verbatim>\<open>t\<close> that has been read replaces \<open>luaState\<close>. The
  driver record holds the own properties of \<open>luaState\<close>, an object literal.
\<close>

definition extractLuaState :: "luaconv \<Rightarrow> luavm \<Rightarrow> driver \<Rightarrow> driver" where
  "extractLuaState ks vm st =
     (if \<not> luaEngine st then st
      else (case fst (lua_get ks vm ''t'') of
              None \<Rightarrow> st
            | Some t \<Rightarrow>
                if truthy (Some t) \<and> typeof (Some t) = ''object''
                then st\<lparr>luaState := [(''t'', t)]\<rparr> else st))"

section \<open>Resolving a tag's raw value\<close>

text \<open>\<^verbatim>\<open>s.split(c)\<close> and \<^verbatim>\<open>s.indexOf(c)\<close> for a single character.\<close>

fun split :: "char \<Rightarrow> string \<Rightarrow> string list" where
  "split c [] = [[]]"
| "split c (x # xs) =
     (if x = c then [] # split c xs
      else (case split c xs of [] \<Rightarrow> [[x]] | p # ps \<Rightarrow> (x # p) # ps))"

fun indexOf :: "char \<Rightarrow> string \<Rightarrow> int" where
  "indexOf c [] = - 1"
| "indexOf c (x # xs) =
     (if x = c then 0 else (if indexOf c xs < 0 then - 1 else indexOf c xs + 1))"

text \<open>\<^verbatim>\<open>tag.address || tag.name || ''\<close>: the empty string is falsy.\<close>

definition tagAddr :: "tag \<Rightarrow> string" where
  "tagAddr tg = (if t_address tg \<noteq> [] then t_address tg else t_name tg)"

text \<open>
  The loop that both \<^verbatim>\<open>_resolveTagValue\<close> functions end with: go down one property per
  path segment while the value is an object that has it, own or inherited; a value that
  is left must not be an object.
\<close>

fun walkPath :: "js option \<Rightarrow> string list \<Rightarrow> jserror + js option" where
  "walkPath val [] = Inr (if typeof val \<noteq> ''object'' then val else None)"
| "walkPath val (p # ps) =
     (if truthy val \<and> typeof val = ''object''
      then (case getProp val p of
              Inl e \<Rightarrow> Inl e
            | Inr None \<Rightarrow> Inr None
            | Inr (Some v) \<Rightarrow> walkPath (Some v) ps)
      else Inr None)"

text \<open>\<^verbatim>\<open>_resolveTagValue\<close> of EasyDrvClient, on \<open>luaState\<close>.\<close>

definition easy_resolveTagValue :: "driver \<Rightarrow> tag \<Rightarrow> jserror + js option" where
  "easy_resolveTagValue st tg =
     (let addr = tagAddr tg; state = Some (plain (luaState st)) in
      case getProp state addr of
        Inl e \<Rightarrow> Inl e
      | Inr direct \<Rightarrow>
          if direct \<noteq> None \<and> typeof direct \<noteq> ''object'' then Inr direct
          else if indexOf CHR ''.'' addr > 0 then walkPath state (split CHR ''.'' addr)
          else (case getProp state ''tags'' of
                  Inl e \<Rightarrow> Inl e
                | Inr tgs \<Rightarrow> if truthy tgs then getProp tgs addr else Inr None))"

text \<open>
  \<^verbatim>\<open>_resolveTagValue\<close> of MPSClient, on \<open>deviceStates\<close>: the address is
  \<^verbatim>\<open>DeviceName.UnitKey.TagName\<close> or \<^verbatim>\<open>DeviceName.UnitKey.Properties.PropName\<close>. The
  driver record holds the own properties of \<open>deviceStates\<close>, an object literal that the
  driver assigns device names to.
\<close>

definition mps_resolveTagValue :: "driver \<Rightarrow> tag \<Rightarrow> jserror + js option" where
  "mps_resolveTagValue st tg =
     (let parts = split CHR ''.'' (tagAddr tg) in
      if length parts < 3 then Inr None
      else
        (case getProp (Some (plain (deviceStates st))) (parts ! 0) of
           Inl e \<Rightarrow> Inl e
         | Inr devState \<Rightarrow>
             if \<not> truthy devState then Inr None
             else (case getProp devState ''Units'' of
                     Inl e \<Rightarrow> Inl e
                   | Inr units \<Rightarrow>
                       if \<not> truthy units then Inr None
                       else (case getProp units (parts ! 1) of
                               Inl e \<Rightarrow> Inl e
                             | Inr un \<Rightarrow>
                                 if \<not> truthy un then Inr None
                                 else walkPath un (drop 2 parts)))))"

section \<open>The driver interface\<close>

text \<open>A driver as its constructor leaves it, for a device with the given tags.\<close>

definition newDriver :: "(string \<times> tag) list \<Rightarrow> driver" where
  "newDriver tgs =
     \<lparr>data_tags = tgs, socket = None, connected_flag = False, working = False,
      overloading_cnt = 0, lastStatus = [], lastTimestampValue = None, errRetryCount = 0,
      varsValue = [], addDaq = False, events = [], daqCalls = [], sent = [], logged = [],
      packetIndex = 0, recvBuffer = [], luaState = [], luaEngine = False, gotDevices = False,
      pacInfoReceived = False, browseData = None, deviceStates = []\<rparr>"

definition MAX_ERRORS_COUNT :: nat where "MAX_ERRORS_COUNT = 2"

definition emitValues :: "(string \<times> sample) list \<Rightarrow> driver \<Rightarrow> driver" where
  "emitValues vals st = st\<lparr>events := events st @ [ValueChanged vals]\<rparr>"

definition emitStatus :: "string \<Rightarrow> driver \<Rightarrow> driver" where
  "emitStatus status st = st\<lparr>lastStatus := status, events := events st @ [StatusChanged status]\<rparr>"

definition clearVarsValue :: "driver \<Rightarrow> driver" where
  "clearVarsValue st =
     (let st1 = st\<lparr>varsValue := map (\<lambda>e. (fst e, (snd e)\<lparr>s_value := JNull\<rparr>)) (varsValue st)\<rparr>
      in emitValues (varsValue st1) st1)"

text \<open>
  \<^verbatim>\<open>_checkWorking\<close>, the overload guard. It is the same in both drivers but for the
  logging: MPSClient warns only when the counter reaches 3, EasyDrvClient on every refusal
  (after the counter has been reset).
\<close>

definition mps_checkWorking :: "bool \<Rightarrow> driver \<Rightarrow> bool \<times> driver" where
  "mps_checkWorking flag st =
     (if flag \<and> working st then
        (let st1 = st\<lparr>overloading_cnt := overloading_cnt st + 1\<rparr>;
             st2 = (if overloading_cnt st1 \<ge> 3
                    then (let a = emitStatus ''connect-busy'' st1;
                              b = a\<lparr>logged := logged a @ [Warn ''working overload! polling too fast'']\<rparr>
                          in b\<lparr>overloading_cnt := 0\<rparr>)
                    else st1)
         in (False, st2))
      else
        (let st1 = st\<lparr>working := flag\<rparr>
         in (True, if \<not> flag then st1\<lparr>overloading_cnt := 0\<rparr> else st1)))"

definition easy_checkWorking :: "bool \<Rightarrow> driver \<Rightarrow> bool \<times> driver" where
  "easy_checkWorking flag st =
     (if flag \<and> working st then
        (let st1 = st\<lparr>overloading_cnt := overloading_cnt st + 1\<rparr>;
             st2 = (if overloading_cnt st1 \<ge> 3
                    then (emitStatus ''connect-busy'' st1)\<lparr>overloading_cnt := 0\<rparr>
                    else st1)
         in (False, st2\<lparr>logged := logged st2 @ [Warn ''working overload!'']\<rparr>))
      else
        (let st1 = st\<lparr>working := flag\<rparr>
         in (True, if \<not> flag then st1\<lparr>overloading_cnt := 0\<rparr> else st1)))"

subsection \<open>connect\<close>

text \<open>
  \<^verbatim>\<open>connect()\<close> is asynchronous. \<open>connect_begin\<close> is what runs when it is called: the
  guard, and for an admitted call the new socket; \<open>Some\<close> is a promise settled at once.
  \<open>connect_end\<close> is what runs when the TCP connection attempt is over (\<open>None\<close>: it
  succeeded, \<open>Some e\<close>: error or timeout). In EasyDrvClient the handshake wait and the
  two start-up requests complete either way; \<open>info_ok\<close> and \<open>states\<close> say how
  \<^verbatim>\<open>_getPACInfo\<close> and the first \<^verbatim>\<open>_getPACStates\<close> went.
\<close>

datatype 'a outcome = Threw string | Returned 'a

definition mps_connect_begin :: "driver \<Rightarrow> unit promise option \<times> driver" where
  "mps_connect_begin st =
     (case mps_checkWorking True st of
        (False, st1) \<Rightarrow> (Some (Rejected ''busy''), st1)
      | (True, st1) \<Rightarrow>
          (None, st1\<lparr>logged := logged st1 @ [Info ''try to connect''],
                     socket := Some \<lparr>destroyed = False\<rparr>\<rparr>))"

definition mps_connect_end :: "string option \<Rightarrow> driver \<Rightarrow> unit promise \<times> driver" where
  "mps_connect_end err st =
     (case err of
        None \<Rightarrow>
          (let st1 = emitStatus ''connect-ok'' (st\<lparr>connected_flag := True, errRetryCount := 0\<rparr>);
               st2 = st1\<lparr>logged := logged st1 @ [Info ''connected!'']\<rparr>
           in (Resolved (), snd (mps_checkWorking False st2)))
      | Some e \<Rightarrow>
          (let st1 = clearVarsValue (emitStatus ''connect-error'' (st\<lparr>connected_flag := False\<rparr>));
               st2 = snd (mps_checkWorking False st1);
               st3 = st2\<lparr>socket := None\<rparr>
           in (Rejected e, st3\<lparr>logged := logged st3 @ [Err ''connect failed!'']\<rparr>)))"

definition easy_connect_begin :: "driver \<Rightarrow> unit promise option \<times> driver" where
  "easy_connect_begin st =
     (case easy_checkWorking True st of
        (False, st1) \<Rightarrow> (Some (Rejected ''busy''), st1)
      | (True, st1) \<Rightarrow>
          (None, st1\<lparr>logged := logged st1 @ [Info ''try to connect''],
                     luaEngine := True, socket := Some \<lparr>destroyed = False\<rparr>\<rparr>))"

text \<open>
  The end of \<^verbatim>\<open>_getPACStates\<close>, once the answer is there: \<open>None\<close> is an answer without
  Lua text (the function returns \<^verbatim>\<open>null\<close>); otherwise the text has been executed, in an
  engine that is created if there is none, and the state is read back. The result says
  whether the function returns a state.
\<close>

definition getPACStates_end :: "luaconv \<Rightarrow> luavm option \<Rightarrow> driver \<Rightarrow> bool \<times> driver" where
  "getPACStates_end ks answer st =
     (case answer of
        None \<Rightarrow> (False, st)
      | Some vm \<Rightarrow> (True, extractLuaState ks vm (st\<lparr>luaEngine := True\<rparr>)))"

definition easy_connect_end ::
  "luaconv \<Rightarrow> string option \<Rightarrow> bool \<Rightarrow> luavm option outcome \<Rightarrow> driver
     \<Rightarrow> unit promise \<times> driver" where
  "easy_connect_end ks err info_ok states st =
     (case err of
        None \<Rightarrow>
          (let st1 = st\<lparr>connected_flag := True, errRetryCount := 0, recvBuffer := []\<rparr>;
               st2 = (if info_ok then st1\<lparr>pacInfoReceived := True\<rparr>
                      else st1\<lparr>logged := logged st1 @ [Warn ''get PAC info warning'']\<rparr>);
               st3 = (case states of
                        Threw e \<Rightarrow> st2\<lparr>logged := logged st2 @ [Warn ''get PAC state warning'']\<rparr>
                      | Returned answer \<Rightarrow> (snd (getPACStates_end ks answer st2))\<lparr>gotDevices := True\<rparr>);
               st4 = emitStatus ''connect-ok'' st3;
               st5 = st4\<lparr>logged := logged st4 @ [Info ''connected!'']\<rparr>
           in (Resolved (), snd (easy_checkWorking False st5)))
      | Some e \<Rightarrow>
          (let st1 = clearVarsValue (emitStatus ''connect-error'' (st\<lparr>connected_flag := False\<rparr>));
               st2 = snd (easy_checkWorking False st1);
               st3 = st2\<lparr>socket := None\<rparr>
           in (Rejected e, st3\<lparr>logged := logged st3 @ [Err ''connect failed!'']\<rparr>)))"

subsection \<open>disconnect\<close>

text \<open>
  What the socket does when \<^verbatim>\<open>disconnect()\<close> uses it is not the driver's choice:
  \<open>writes_ok\<close> is the number of \<^verbatim>\<open>socket.write\<close> calls that return before one throws,
  \<open>remove_throws\<close> says that \<^verbatim>\<open>socket.removeAllListeners()\<close> throws. A throwing
  \<^verbatim>\<open>socket.destroy()\<close> is caught on the spot and leaves no trace.
\<close>

record sockenv =
  writes_ok :: nat
  remove_throws :: bool

definition FRAME_PREFIX :: "byte list" where
  "FRAME_PREFIX = [0x50, 0x30, 0x30, 0x31]"

definition closeBuf :: "byte list" where
  "closeBuf = [0x43, 0x6C, 0x6F, 0x73, 0x65]"

definition lenBuf :: "byte list" where
  "lenBuf = [lenByte 24 (length closeBuf), lenByte 16 (length closeBuf),
             lenByte 8 (length closeBuf), lenByte 0 (length closeBuf)]"

definition mps_disconnect :: "sockenv \<Rightarrow> driver \<Rightarrow> bool promise \<times> driver" where
  "mps_disconnect env st =
     (let st1 = snd (mps_checkWorking False st);
          st2 = (case socket st1 of
                   None \<Rightarrow> st1
                 | Some s \<Rightarrow>
                     (let a = st1\<lparr>sent := sent st1 @ take (writes_ok env) [FRAME_PREFIX, lenBuf, closeBuf]\<rparr>
                      in if remove_throws env
                         then a\<lparr>logged := logged a @ [Err ''disconnect failure!'']\<rparr>
                         else a));
          st3 = st2\<lparr>socket := None, connected_flag := False, errRetryCount := 0,
                     browseData := None, deviceStates := []\<rparr>
      in (Resolved True, clearVarsValue (emitStatus ''connect-off'' st3)))"

definition easy_disconnect :: "sockenv \<Rightarrow> driver \<Rightarrow> bool promise \<times> driver" where
  "easy_disconnect env st =
     (let st1 = snd (easy_checkWorking False st);
          st2 = (if socket st1 \<noteq> None \<and> remove_throws env
                 then st1\<lparr>logged := logged st1 @ [Err ''disconnect failure!'']\<rparr>
                 else st1\<lparr>luaEngine := False\<rparr>);
          st3 = st2\<lparr>socket := None, connected_flag := False, pacInfoReceived := False,
                     gotDevices := False, errRetryCount := 0, luaState := []\<rparr>
      in (Resolved True, clearVarsValue (emitStatus ''connect-off'' st3)))"

subsection \<open>polling\<close>

text \<open>
  The body of the loop over \<^verbatim>\<open>data.tags\<close>, the same text in both drivers. \<open>resolve\<close>
  is the driver's \<^verbatim>\<open>_resolveTagValue\<close>, \<open>compose\<close> stands for
  \<^verbatim>\<open>deviceUtils.tagValueCompose\<close> (\<open>Inl\<close> when it throws) and \<open>daqToSave\<close> for
  \<^verbatim>\<open>deviceUtils.tagDaqToSave\<close>. The accumulator is the driver and the \<^verbatim>\<open>changed\<close>
  object. \<^verbatim>\<open>changed[id]\<close> and \<^verbatim>\<open>varsValue[id]\<close> are one object, so the
  \<^verbatim>\<open>changed = false\<close> that ends the body shows in both. \<^verbatim>\<open>deviceUtils\<close> is not among
  these sources: \<open>daqToSave\<close> is taken as the specification describes it, a function
  that answers true or false and does not throw.
\<close>

definition tagStep ::
  "(driver \<Rightarrow> tag \<Rightarrow> jserror + js option) \<Rightarrow> (js \<Rightarrow> js \<Rightarrow> tag \<Rightarrow> jserror + js)
     \<Rightarrow> (sample \<Rightarrow> nat \<Rightarrow> bool) \<Rightarrow> nat
     \<Rightarrow> driver \<times> (string \<times> sample) list \<Rightarrow> string \<times> tag \<Rightarrow> driver \<times> (string \<times> sample) list" where
  "tagStep resolve compose daqToSave timestamp acc idtag =
     (let st = fst acc; changed = snd acc; tid = fst idtag; tg = snd idtag;
          failed = st\<lparr>logged := logged st @ [Err (''read tag '' @ t_name tg @ '' error'')]\<rparr>
      in
      case resolve st tg of
        Inl e \<Rightarrow> (failed, changed)
      | Inr None \<Rightarrow> (st, changed)
      | Inr (Some rawValue) \<Rightarrow>
          (case compose rawValue
                  (case map_of (varsValue st) tid of Some s \<Rightarrow> s_value s | None \<Rightarrow> JNull) tg of
             Inl e \<Rightarrow> (failed, changed)
           | Inr v \<Rightarrow>
               (let tagChanged = (case map_of (varsValue st) tid of
                                    None \<Rightarrow> True | Some s \<Rightarrow> s_value s \<noteq> v);
                    smp = \<lparr>s_id = tid, s_value = v, s_rawValue = rawValue, s_type = t_type tg,
                           s_changed = tagChanged, s_timestamp = timestamp, s_daq = t_daq tg\<rparr>;
                    save = (addDaq st \<and> daqToSave smp timestamp);
                    kept = smp\<lparr>s_changed := False\<rparr>
                in (st\<lparr>varsValue := AList.update tid kept (varsValue st)\<rparr>,
                    if save then AList.update tid kept changed else changed))))"

text \<open>
  The loop, what follows it in \<^verbatim>\<open>polling()\<close> up to the \<^verbatim>\<open>finally\<close> (\<open>afterLoop\<close>, on
  the driver and the \<^verbatim>\<open>changed\<close> object that the loop leaves), and the two together.
\<close>

definition tagLoop ::
  "(driver \<Rightarrow> tag \<Rightarrow> jserror + js option) \<Rightarrow> (js \<Rightarrow> js \<Rightarrow> tag \<Rightarrow> jserror + js)
     \<Rightarrow> (sample \<Rightarrow> nat \<Rightarrow> bool) \<Rightarrow> nat
     \<Rightarrow> driver \<times> (string \<times> sample) list \<Rightarrow> (string \<times> tag) list \<Rightarrow> driver \<times> (string \<times> sample) list" where
  "tagLoop resolve compose daqToSave timestamp acc tgs =
     foldl (tagStep resolve compose daqToSave timestamp) acc tgs"

definition afterLoop :: "nat \<Rightarrow> driver \<times> (string \<times> sample) list \<Rightarrow> driver" where
  "afterLoop timestamp r =
     (let st1 = (fst r)\<lparr>lastTimestampValue := Some timestamp, errRetryCount := 0\<rparr>;
          st2 = emitValues (varsValue st1) st1;
          st3 = (if addDaq st2 \<and> snd r \<noteq> [] then st2\<lparr>daqCalls := daqCalls st2 @ [snd r]\<rparr> else st2)
      in if lastStatus st3 \<noteq> ''connect-ok'' then emitStatus ''connect-ok'' st3 else st3)"

definition pollingCycle ::
  "(driver \<Rightarrow> tag \<Rightarrow> jserror + js option) \<Rightarrow> (js \<Rightarrow> js \<Rightarrow> tag \<Rightarrow> jserror + js)
     \<Rightarrow> (sample \<Rightarrow> nat \<Rightarrow> bool) \<Rightarrow> nat \<Rightarrow> driver \<Rightarrow> driver" where
  "pollingCycle resolve compose daqToSave timestamp st =
     afterLoop timestamp (tagLoop resolve compose daqToSave timestamp (st, []) (data_tags st))"

text \<open>The \<^verbatim>\<open>catch\<close> of \<^verbatim>\<open>polling()\<close>.\<close>

definition pollingCatch :: "driver \<Rightarrow> driver" where
  "pollingCatch st =
     (let st1 = st\<lparr>errRetryCount := errRetryCount st + 1\<rparr>;
          st2 = (if errRetryCount st1 \<ge> MAX_ERRORS_COUNT
                 then emitStatus ''connect-error'' (st1\<lparr>connected_flag := False\<rparr>) else st1)
      in st2\<lparr>logged := logged st2 @ [Err ''polling error'']\<rparr>)"

text \<open>
  \<^verbatim>\<open>polling()\<close> is asynchronous too. \<open>polling_begin\<close> is what runs when it is called:
  a refused call ends there, and so does a call without a connection; otherwise the call is
  in flight (\<open>Awaiting\<close>) until the network has answered. \<open>polling_end\<close> is the rest.
\<close>

datatype progress = Refused | Ended | Awaiting

definition easy_polling_begin :: "driver \<Rightarrow> progress \<times> driver" where
  "easy_polling_begin st =
     (case easy_checkWorking True st of
        (False, st1) \<Rightarrow> (Refused, st1)
      | (True, st1) \<Rightarrow>
          if socket st1 = None \<or> \<not> connected_flag st1
          then (Ended, snd (easy_checkWorking False (snd (easy_checkWorking False st1))))
          else (Awaiting, st1))"

text \<open>
  In EasyDrvClient the call waits for \<^verbatim>\<open>_getPACStates()\<close>, which throws or ends as
  above.
\<close>

definition easy_polling_end ::
  "luaconv \<Rightarrow> (js \<Rightarrow> js \<Rightarrow> tag \<Rightarrow> jserror + js) \<Rightarrow> (sample \<Rightarrow> nat \<Rightarrow> bool) \<Rightarrow> nat
     \<Rightarrow> luavm option outcome \<Rightarrow> driver \<Rightarrow> driver" where
  "easy_polling_end ks compose daqToSave timestamp states st =
     (case states of
        Threw e \<Rightarrow> snd (easy_checkWorking False (pollingCatch st))
      | Returned answer \<Rightarrow>
          (case getPACStates_end ks answer st of
             (False, st1) \<Rightarrow> snd (easy_checkWorking False (snd (easy_checkWorking False st1)))
           | (True, st1) \<Rightarrow>
               snd (easy_checkWorking False
                      (pollingCycle easy_resolveTagValue compose daqToSave timestamp st1))))"

definition easy_polling ::
  "luaconv \<Rightarrow> (js \<Rightarrow> js \<Rightarrow> tag \<Rightarrow> jserror + js) \<Rightarrow> (sample \<Rightarrow> nat \<Rightarrow> bool) \<Rightarrow> nat
     \<Rightarrow> luavm option outcome \<Rightarrow> driver \<Rightarrow> driver" where
  "easy_polling ks compose daqToSave timestamp states st =
     (case easy_polling_begin st of
        (Awaiting, st1) \<Rightarrow> easy_polling_end ks compose daqToSave timestamp states st1
      | (p, st1) \<Rightarrow> st1)"

text \<open>
  In MPSClient the call first asks every device named by a tag address for its state
  (\<^verbatim>\<open>_queryAll\<close>); \<open>net\<close> is what the request for a device name gives. A failed request
  is counted, a result with \<^verbatim>\<open>Units\<close> is stored. The names are collected as the
  properties of an object: \<^verbatim>\<open>deviceNames['__proto__'] = true\<close> adds none.
\<close>

definition deviceNames :: "(string \<times> tag) list \<Rightarrow> string list" where
  "deviceNames tgs =
     forIn (foldl (\<lambda>names idtag.
              (let devName = hd (split CHR ''.'' (tagAddr (snd idtag)))
               in if devName \<noteq> [] \<and> devName \<noteq> ''__proto__'' \<and> devName \<notin> set names
                  then names @ [devName] else names))
            [] tgs)"

definition queryAll :: "(string \<Rightarrow> js outcome) \<Rightarrow> nat \<times> driver \<Rightarrow> string \<Rightarrow> nat \<times> driver" where
  "queryAll net acc dn =
     (case net dn of
        Threw e \<Rightarrow> (fst acc + 1, snd acc)
      | Returned result \<Rightarrow>
          (fst acc,
           if truthy (Some result) \<and> (case getProp (Some result) ''Units'' of
                                          Inl e \<Rightarrow> False | Inr u \<Rightarrow> truthy u)
           then (snd acc)\<lparr>deviceStates := AList.update dn result (deviceStates (snd acc))\<rparr>
           else snd acc))"

text \<open>
  The first \<^verbatim>\<open>await\<close> of the call is the request for the first device, or, when no tag
  names a device, the composition of the first value that a tag resolves to. When there
  is neither, the body has no \<^verbatim>\<open>await\<close> to stop at and the cycle is over when the call
  returns.
\<close>

definition mps_polling_begin ::
  "(js \<Rightarrow> js \<Rightarrow> tag \<Rightarrow> jserror + js) \<Rightarrow> (sample \<Rightarrow> nat \<Rightarrow> bool) \<Rightarrow> nat \<Rightarrow> driver
     \<Rightarrow> progress \<times> driver" where
  "mps_polling_begin compose daqToSave timestamp st =
     (case mps_checkWorking True st of
        (False, st1) \<Rightarrow> (Refused, st1)
      | (True, st1) \<Rightarrow>
          if (case socket st1 of None \<Rightarrow> True | Some s \<Rightarrow> destroyed s) \<or> \<not> connected_flag st1
          then (Ended, snd (mps_checkWorking False (snd (mps_checkWorking False st1))))
          else if deviceNames (data_tags st1) = []
                  \<and> list_all (\<lambda>idtag. case mps_resolveTagValue st1 (snd idtag) of
                                          Inr (Some v) \<Rightarrow> False | _ \<Rightarrow> True) (data_tags st1)
          then (Ended, snd (mps_checkWorking False
                              (pollingCycle mps_resolveTagValue compose daqToSave timestamp st1)))
          else (Awaiting, st1))"

definition mps_polling_end ::
  "(js \<Rightarrow> js \<Rightarrow> tag \<Rightarrow> jserror + js) \<Rightarrow> (sample \<Rightarrow> nat \<Rightarrow> bool) \<Rightarrow> nat
     \<Rightarrow> (string \<Rightarrow> js outcome) \<Rightarrow> driver \<Rightarrow> driver" where
  "mps_polling_end compose daqToSave timestamp net st =
     (let q = foldl (queryAll net) (0, st) (deviceNames (data_tags st));
          st1 = (if fst q > 0 then (snd q)\<lparr>logged := logged (snd q) @ [Warn ''QueryAll failed'']\<rparr>
                 else snd q)
      in snd (mps_checkWorking False
                (pollingCycle mps_resolveTagValue compose daqToSave timestamp st1)))"

definition mps_polling ::
  "(js \<Rightarrow> js \<Rightarrow> tag \<Rightarrow> jserror + js) \<Rightarrow> (sample \<Rightarrow> nat \<Rightarrow> bool) \<Rightarrow> nat
     \<Rightarrow> (string \<Rightarrow> js outcome) \<Rightarrow> driver \<Rightarrow> driver" where
  "mps_polling compose daqToSave timestamp net st =
     (case mps_polling_begin compose daqToSave timestamp st of
        (Awaiting, st1) \<Rightarrow> mps_polling_end compose daqToSave timestamp net st1
      | (p, st1) \<Rightarrow> st1)"

subsection \<open>load, getValues, getValue\<close>

definition load :: "(string \<times> tag) list \<Rightarrow> driver \<Rightarrow> driver" where
  "load tgs st = st\<lparr>data_tags := tgs, varsValue := [],
                     logged := logged st @ [Info ''data loaded'']\<rparr>"

definition getValues :: "driver \<Rightarrow> (string \<times> sample) list" where
  "getValues st = varsValue st"

text \<open>
  \<^verbatim>\<open>getValue(id)\<close> answers \<^verbatim>\<open>{ id, value, ts }\<close> when \<^verbatim>\<open>varsValue[id]\<close> is truthy, which
  it also is for the names that the cache inherits from \<^verbatim>\<open>Object.prototype\<close>; the
  \<^verbatim>\<open>value\<close> is \<^verbatim>\<open>undefined\<close> then.
\<close>

definition getValue :: "driver \<Rightarrow> string \<Rightarrow> (string \<times> js option \<times> nat option) option" where
  "getValue st tid =
     (case map_of (varsValue st) tid of
        Some s \<Rightarrow> Some (tid, Some (s_value s), lastTimestampValue st)
      | None \<Rightarrow>
          if tid = ''__proto__'' \<or> map_of objectEntries tid \<noteq> None
          then Some (tid, None, lastTimestampValue st) else None)"

section \<open>Scenarios and shapes used in the statements\<close>

text \<open>
  Lua states for the statements about reading back, each in a new engine: \<^verbatim>\<open>t\<close> is a
  chain of \<open>n\<close> tables, each the entry \<^verbatim>\<open>a\<close> of the one before, the last one holding
  \<^verbatim>\<open>a = 1\<close>; and \<^verbatim>\<open>t\<close> is a table that holds itself as \<^verbatim>\<open>self\<close>. \<open>nest n v\<close> is
  the value \<open>v\<close> inside \<open>n\<close> objects.
\<close>

text \<open>Where every Lua string is text that decodes to itself; no number is a key.\<close>

definition plainConv :: luaconv where
  "plainConv = \<lparr>jsstring = Some, keyOf = (\<lambda>n. ''1'')\<rparr>"

definition chainVM :: "nat \<Rightarrow> luavm" where
  "chainVM n =
     \<lparr>lua_heap = (\<lambda>r. if r + 1 < n then [(LStr ''a'', LTable (r + 1))] else [(LStr ''a'', LNum 1)]),
      lua_globals = (\<lambda>g. if g = ''t'' then LTable 0 else LNil), lua_top = 0\<rparr>"

definition cyclicVM :: luavm where
  "cyclicVM =
     \<lparr>lua_heap = (\<lambda>r. [(LStr ''self'', LTable r)]),
      lua_globals = (\<lambda>g. if g = ''t'' then LTable 0 else LNil), lua_top = 0\<rparr>"

primrec nest :: "nat \<Rightarrow> js \<Rightarrow> js" where
  "nest 0 v = v"
| "nest (Suc n) v = plain [(''a'', nest n v)]"

text \<open>
  Drivers for the statements about resolving: an EasyDrv driver and an MPS driver, each
  with one tag at the given address, and with some state read.
\<close>

definition tagAt :: "string \<Rightarrow> tag" where
  "tagAt addr = \<lparr>t_name = ''x'', t_address = addr, t_type = ''number'',
                  t_daq = \<lparr>daq_enabled = False, daq_changed = False, daq_interval = 60\<rparr>\<rparr>"

definition easyWith :: "string \<Rightarrow> driver" where
  "easyWith addr =
     (newDriver [(''id1'', tagAt addr)])
       \<lparr>socket := Some \<lparr>destroyed = False\<rparr>, connected_flag := True,
        lastStatus := ''connect-ok'', luaEngine := True,
        luaState := [(''t'', plain [(''V1'', plain [(''ST'', JNum 1)])])]\<rparr>"

definition mpsWith :: "string \<Rightarrow> driver" where
  "mpsWith addr =
     (newDriver [(''id1'', tagAt addr)])
       \<lparr>socket := Some \<lparr>destroyed = False\<rparr>, connected_flag := True,
        lastStatus := ''connect-ok'',
        deviceStates := [(''Dev'', plain [(''Units'', plain [(''u1'', plain [(''State'', JStr ''run'')])])])]\<rparr>"

definition passOn :: "js \<Rightarrow> js \<Rightarrow> tag \<Rightarrow> jserror + js" where
  "passOn rawValue previous tg = Inr rawValue"

text \<open>
  Scenarios of the overload guard. An MPS driver with a tag of the device \<^verbatim>\<open>Dev\<close>
  connects; a \<^verbatim>\<open>polling()\<close> call is admitted and waits for the answer of the device;
  one more \<^verbatim>\<open>polling()\<close> call arrives. An EasyDrv driver has a \<^verbatim>\<open>connect()\<close> call
  waiting for the TCP connection; one more \<^verbatim>\<open>connect()\<close> call arrives; \<^verbatim>\<open>disconnect()\<close>
  is called on a socket that does what it is asked.
\<close>

definition mps_connected :: driver where
  "mps_connected =
     snd (mps_connect_end None (snd (mps_connect_begin (newDriver [(''id1'', tagAt ''Dev.u1.State'')]))))"

definition mps_in_flight :: driver where
  "mps_in_flight = snd (mps_polling_begin passOn (\<lambda>s n. False) 7 mps_connected)"

definition mps_poll_again :: "driver \<Rightarrow> driver" where
  "mps_poll_again st = snd (mps_polling_begin passOn (\<lambda>s n. False) 7 st)"

definition easy_connecting :: driver where
  "easy_connecting = snd (easy_connect_begin (newDriver []))"

definition easy_connect_again :: "driver \<Rightarrow> driver" where
  "easy_connect_again st = snd (easy_connect_begin st)"

definition quietSocket :: sockenv where
  "quietSocket = \<lparr>writes_ok = 3, remove_throws = False\<rparr>"

text \<open>
  What the statements about the \<^verbatim>\<open>changed\<close> flag say of a cache, of an event and of a
  driver: no sample of the cache has the flag set; a value event carries such a cache;
  the cache of the driver and every event it has emitted are so.
\<close>

definition cacheClean :: "(string \<times> sample) list \<Rightarrow> bool" where
  "cacheClean vv = list_all (\<lambda>e. \<not> s_changed (snd e)) vv"

fun eventClean :: "event \<Rightarrow> bool" where
  "eventClean (ValueChanged vv) = cacheClean vv"
| "eventClean (StatusChanged s) = True"

definition changedHidden :: "driver \<Rightarrow> bool" where
  "changedHidden st \<longleftrightarrow> cacheClean (varsValue st) \<and> list_all eventClean (events st)"

text \<open>
  What the statements about a failing tag say: the tag's step fails when resolving its
  value raises or composing it throws; \<open>outcome\<close> is a driver state without its log and
  without its tag configuration.
\<close>

definition tagFails ::
  "(driver \<Rightarrow> tag \<Rightarrow> jserror + js option) \<Rightarrow> (js \<Rightarrow> js \<Rightarrow> tag \<Rightarrow> jserror + js)
     \<Rightarrow> driver \<Rightarrow> string \<Rightarrow> tag \<Rightarrow> bool" where
  "tagFails resolve compose st tid tg =
     (case resolve st tg of
        Inl e \<Rightarrow> True
      | Inr None \<Rightarrow> False
      | Inr (Some rawValue) \<Rightarrow>
          (case compose rawValue
                  (case map_of (varsValue st) tid of Some s \<Rightarrow> s_value s | None \<Rightarrow> JNull) tg of
             Inl e \<Rightarrow> True
           | Inr v \<Rightarrow> False))"

definition outcome :: "driver \<Rightarrow> driver" where
  "outcome st = st\<lparr>logged := [], data_tags := []\<rparr>"

text \<open>
  A resolver that reads nothing of the driver but \<open>luaState\<close> and \<open>deviceStates\<close>, as
  both \<^verbatim>\<open>_resolveTagValue\<close> functions do.
\<close>

definition readsStates :: "(driver \<Rightarrow> tag \<Rightarrow> jserror + js option) \<Rightarrow> bool" where
  "readsStates R \<longleftrightarrow>
     (\<forall>s s' tg. luaState s = luaState s' \<and> deviceStates s = deviceStates s' \<longrightarrow> R s tg = R s' tg)"

text \<open>
  An example for the statements about a polling cycle: a tag at \<^verbatim>\<open>t.V1.ST\<close> with DAQ
  enabled, a tag whose composition fails, a connected EasyDrv driver with both tags and a
  DAQ function bound, the Lua state after a response that sets \<^verbatim>\<open>t.V1.ST = 1\<close>, a
  \<open>compose\<close> that throws for the tag named \<^verbatim>\<open>bad\<close> and passes the raw value on
  otherwise, and a DAQ check that asks for the samples whose \<^verbatim>\<open>changed\<close> is set.
\<close>

definition exampleTag :: tag where
  "exampleTag = \<lparr>t_name = ''level'', t_address = ''t.V1.ST'', t_type = ''number'',
                  t_daq = \<lparr>daq_enabled = True, daq_changed = True, daq_interval = 60\<rparr>\<rparr>"

definition badTag :: tag where
  "badTag = \<lparr>t_name = ''bad'', t_address = ''t.V1.ST'', t_type = ''number'',
              t_daq = \<lparr>daq_enabled = True, daq_changed = True, daq_interval = 60\<rparr>\<rparr>"

definition exampleDriver :: driver where
  "exampleDriver =
     (newDriver [(''id0'', badTag), (''id1'', exampleTag)])
       \<lparr>socket := Some \<lparr>destroyed = False\<rparr>, connected_flag := True, addDaq := True,
        lastStatus := ''connect-ok''\<rparr>"

definition exampleVM :: luavm where
  "exampleVM =
     \<lparr>lua_heap = (\<lambda>r. if r = 0 then [(LStr ''V1'', LTable 1)] else [(LStr ''ST'', LNum 1)]),
      lua_globals = (\<lambda>g. if g = ''t'' then LTable 0 else LNil), lua_top = 0\<rparr>"

definition exampleCompose :: "js \<Rightarrow> js \<Rightarrow> tag \<Rightarrow> jserror + js" where
  "exampleCompose rawValue previous tg =
     (if t_name tg = ''bad'' then Inl (Failure ''type mismatch'') else Inr rawValue)"

definition saveChanged :: "sample \<Rightarrow> nat \<Rightarrow> bool" where
  "saveChanged smp timestamp = s_changed smp"

definition exampleLoaded :: driver where
  "exampleLoaded = exampleDriver\<lparr>luaState := [(''t'', plain [(''V1'', plain [(''ST'', JNum 1)])])]\<rparr>"

definition exampleSample :: sample where
  "exampleSample =
     \<lparr>s_id = ''id1'', s_value = JNum 1, s_rawValue = JNum 1, s_type = ''number'',
      s_changed = False, s_timestamp = 7,
      s_daq = \<lparr>daq_enabled = True, daq_changed = True, daq_interval = 60\<rparr>\<rparr>"

section \<open>Facts about bytes and lengths\<close>

lemma and255: "(n :: nat) AND 0xFF = n mod 256"
proof -
  have "n AND 255 = n AND mask 8" by (simp add: mask_eq_exp_minus_1)
  also have "\<dots> = take_bit 8 n" by (simp add: take_bit_eq_mask)
  also have "\<dots> = n mod 256" by (simp add: take_bit_eq_mod)
  finally show ?thesis .
qed

lemma unat_byte: "n < 256 \<Longrightarrow> unat (word_of_nat n :: byte) = n"
  by (simp add: unat_of_nat)

lemma unat_byte_lt: "unat (b :: byte) < 256"
  using unsigned_less [of b, where ?'a = nat] by simp

lemma mask8: "(255 :: 32 word) = mask 8"
  by (simp add: mask_eq_exp_minus_1)

lemma lenWord_roundtrip:
  "push_bit 24 (ucast (ucast (drop_bit 24 w AND 0xFF :: 32 word) :: byte)) OR
   push_bit 16 (ucast (ucast (drop_bit 16 w AND 0xFF :: 32 word) :: byte)) OR
   push_bit 8 (ucast (ucast (drop_bit 8 w AND 0xFF :: 32 word) :: byte)) OR
   ucast (ucast (drop_bit 0 w AND 0xFF :: 32 word) :: byte) = (w :: 32 word)"
  unfolding mask8
proof (rule bit_word_eqI)
  fix n :: nat
  assume "n < LENGTH(32)"
  then have n: "n < 32" by simp
  consider "n < 8" | "8 \<le> n" "n < 16" | "16 \<le> n" "n < 24" | "24 \<le> n" "n < 32"
    using n by linarith
  then show "bit (push_bit 24 (ucast (ucast (drop_bit 24 w AND mask 8 :: 32 word) :: byte)) OR
   push_bit 16 (ucast (ucast (drop_bit 16 w AND mask 8 :: 32 word) :: byte)) OR
   push_bit 8 (ucast (ucast (drop_bit 8 w AND mask 8 :: 32 word) :: byte)) OR
   ucast (ucast (drop_bit 0 w AND mask 8 :: 32 word) :: byte) :: 32 word) n = bit w n"
    by cases (auto simp add: bit_simps)
qed

text \<open>The signed reading of a 32-bit pattern.\<close>

lemma sint_cases: "sint (w :: 32 word) = (if uint w < 2^31 then uint w else uint w - 2^32)"
proof -
  define u where "u = uint w"
  have b: "0 \<le> u" "u < 4294967296"
    using uint_lt2p [of w] uint_ge_0 [of w] by (simp_all add: u_def)
  have s: "sint w = (u + 2147483648) mod 4294967296 - 2147483648"
    by (simp add: sint_uint signed_take_bit_eq_take_bit_shift take_bit_eq_mod u_def)
  show ?thesis
  proof (cases "u < 2147483648")
    case True
    then have "(u + 2147483648) mod 4294967296 = u + 2147483648"
      using b by (simp add: mod_pos_pos_trivial)
    with True s show ?thesis by (simp add: u_def)
  next
    case False
    have "(u + 2147483648) mod 4294967296 = (u - 2147483648 + 4294967296) mod 4294967296"
      by (simp add: add.commute)
    also have "\<dots> = (u - 2147483648) mod 4294967296"
      by (simp only: mod_add_self2)
    also have "\<dots> = u - 2147483648"
      using b False by (simp add: mod_pos_pos_trivial)
    finally show ?thesis using False s by (simp add: u_def)
  qed
qed

section \<open>MPSClient: reading frames\<close>

lemma length_buildFrame: "length (buildFrame m) = 8 + length m"
  by (simp add: buildFrame_def)

lemma hasPrefix_take: "8 \<le> n \<Longrightarrow> hasPrefix (take n (buildFrame m))"
  by (simp add: hasPrefix_def buildFrame_def)

lemma lenWord_take: "8 \<le> n \<Longrightarrow> lenWord (take n (buildFrame m)) = word_of_nat (length m)"
proof -
  assume "8 \<le> n"
  then have "lenWord (take n (buildFrame m)) =
      push_bit 24 (ucast (lenByte 24 (length m))) OR push_bit 16 (ucast (lenByte 16 (length m)))
      OR push_bit 8 (ucast (lenByte 8 (length m))) OR ucast (lenByte 0 (length m))"
    by (simp add: lenWord_def buildFrame_def)
  then show ?thesis
    by (simp only: lenByte_def lenWord_roundtrip)
qed

lemma payloadLen_take:
  assumes "8 \<le> n" "int (length m) \<le> MAX_PAYLOAD_SIZE"
  shows "payloadLen (take n (buildFrame m)) = int (length m)"
proof -
  have lt: "length m < 2147483648"
    using assms(2) by (simp add: MAX_PAYLOAD_SIZE_def)
  then have "uint (word_of_nat (length m) :: 32 word) = int (length m)"
    by (simp add: uint_nat unat_of_nat)
  then show ?thesis
    using assms(1) lt by (simp add: payloadLen_def lenWord_take sint_cases)
qed

lemma mps_prefix_None:
  assumes "int (length m) \<le> MAX_PAYLOAD_SIZE" "n < length (buildFrame m)"
  shows "tryParseFramedResponse decode (take n (buildFrame m)) = None"
proof (cases "n < 8")
  case True
  then have "length (take n (buildFrame m)) < 8" by simp
  then show ?thesis by (simp only: tryParseFramedResponse_def if_True)
next
  case False
  then have n: "8 \<le> n" by simp
  show ?thesis
    using assms n
    by (simp add: tryParseFramedResponse_def hasPrefix_take payloadLen_take length_buildFrame)
qed

lemma mps_full:
  assumes "int (length m) \<le> MAX_PAYLOAD_SIZE"
  shows "tryParseFramedResponse decode (buildFrame m) = Some (Inr (decode m))"
proof -
  have n: "8 \<le> length (buildFrame m)" by (simp add: length_buildFrame)
  have p: "payloadLen (buildFrame m) = int (length m)"
    using payloadLen_take [OF n assms] by simp
  have h: "hasPrefix (buildFrame m)"
    using hasPrefix_take [OF n, of m] by simp
  have s: "slice 8 (8 + length m) (buildFrame m) = m"
    by (simp add: slice_def buildFrame_def)
  show ?thesis
    using assms by (simp add: tryParseFramedResponse_def h p s length_buildFrame)
qed

lemma mps_onData_done: "foldl (mps_onData decode) (b, Some r) cs = (b, Some r)"
  by (induction cs) (simp_all add: mps_onData_def)

lemma proper_prefix:
  assumes "(buf @ c) @ rest = frame" "buf @ c \<noteq> frame"
  shows "length (buf @ c) < length frame \<and> buf @ c = take (length (buf @ c)) frame"
proof -
  have "length (buf @ c) \<le> length frame"
    using assms(1) by (metis length_append le_add1)
  moreover have "length (buf @ c) \<noteq> length frame"
    using assms by (metis append_eq_append_conv append_Nil2)
  moreover have "buf @ c = take (length (buf @ c)) frame"
    using assms(1) by (metis append_eq_conv_conj)
  ultimately show ?thesis by simp
qed

lemma mps_chunks:
  assumes m: "int (length m) \<le> MAX_PAYLOAD_SIZE"
  shows "buf @ concat chunks = buildFrame m \<Longrightarrow> buf \<noteq> buildFrame m \<Longrightarrow>
         snd (foldl (mps_onData decode) (buf, None) chunks) = Some (Inr (decode m))"
proof (induction chunks arbitrary: buf)
  case Nil
  then show ?case by simp
next
  case (Cons c cs)
  show ?case
  proof (cases "buf @ c = buildFrame m")
    case True
    then have "mps_onData decode (buf, None) c = (buildFrame m, Some (Inr (decode m)))"
      by (simp add: mps_onData_def mps_full [OF m])
    then show ?thesis
      by (simp add: mps_onData_done)
  next
    case False
    have e: "(buf @ c) @ concat cs = buildFrame m" using Cons.prems(1) by simp
    note pp = proper_prefix [OF e False]
    have "tryParseFramedResponse decode (take (length (buf @ c)) (buildFrame m)) = None"
      using pp by (intro mps_prefix_None [OF m]) simp
    then have "tryParseFramedResponse decode (buf @ c) = None"
      using pp by simp
    then have "mps_onData decode (buf, None) c = (buf @ c, None)"
      by (simp add: mps_onData_def)
    then show ?thesis
      using Cons.IH [OF e False] by simp
  qed
qed

lemma mps_receive_frame:
  assumes "int (length m) \<le> MAX_PAYLOAD_SIZE" "concat chunks = buildFrame m"
  shows "mps_receive decode chunks = Some (Inr (decode m))"
proof -
  have "[] \<noteq> buildFrame m" by (simp add: buildFrame_def)
  then show ?thesis
    using mps_chunks [OF assms(1), of "[]" chunks decode] assms(2)
    by (simp add: mps_receive_def)
qed

lemma mps_invalid:
  assumes "8 \<le> length buf" "hasPrefix buf" "uint (lenWord buf) > MAX_PAYLOAD_SIZE"
  shows "tryParseFramedResponse decode buf = Some (Inl (InvalidFrameLength (payloadLen buf)))"
proof -
  have "payloadLen buf < 0 \<or> payloadLen buf > MAX_PAYLOAD_SIZE"
    using assms(3) uint_lt2p [of "lenWord buf"]
    by (auto simp add: payloadLen_def sint_cases)
  then show ?thesis
    using assms(1,2) by (auto simp add: tryParseFramedResponse_def)
qed

section \<open>EasyDrvClient: reading frames\<close>

lemma skip_garbage: "FRAME_MARKER \<notin> set g \<Longrightarrow> skipNonFramed (g @ bs) = skipNonFramed bs"
  by (induction g) auto

lemma answerSize_bound: "answerSize buf \<le> 65535"
proof -
  have "unat (buf ! 3) \<le> 255" "unat (buf ! 4) \<le> 255"
    using unat_byte_lt [of "buf ! 3"] unat_byte_lt [of "buf ! 4"] by simp_all
  then show ?thesis by (simp add: answerSize_def)
qed

lemma answerSize_respFrame:
  assumes "length payload < 65536"
  shows "answerSize (respFrame s p payload @ rest) = length payload"
proof -
  define l where "l = length payload"
  have hi: "drop_bit 8 l < 256" using assms(1) by (simp add: l_def drop_bit_eq_div)
  have lo: "l AND 0xFF < 256" by (simp add: and255)
  have "answerSize (respFrame s p payload @ rest) = drop_bit 8 l * 256 + (l AND 0xFF)"
    using hi lo by (simp add: answerSize_def respFrame_def l_def unat_byte)
  also have "\<dots> = l" by (simp add: and255 drop_bit_eq_div)
  finally show ?thesis by (simp add: l_def)
qed

lemma answerSize_take: "5 \<le> n \<Longrightarrow> answerSize (take n buf) = answerSize buf"
  by (simp add: answerSize_def)

lemma length_respFrame: "length (respFrame s p payload) = 5 + length payload"
  by (simp add: respFrame_def)

lemma skip_respFrame:
  "skipNonFramed (take n (respFrame s p payload @ rest)) = take n (respFrame s p payload @ rest)"
  by (cases n) (simp_all add: respFrame_def)

lemma respFrame_split: "\<exists>h. length h = 5 \<and> respFrame s p payload = h @ payload"
proof -
  have "respFrame s p payload = take 5 (respFrame s p payload) @ payload"
    by (simp add: respFrame_def)
  moreover have "length (take 5 (respFrame s p payload)) = 5"
    by (simp add: respFrame_def)
  ultimately show ?thesis by blast
qed

text \<open>The branches of \<open>tryParseResponse\<close>, one lemma each.\<close>

lemma validatePacketIndex_simps [simp]:
  "recvBuffer (validatePacketIndex buf st) = recvBuffer st"
  "packetIndex (validatePacketIndex buf st) = packetIndex st"
  "validatePacketIndex buf (st\<lparr>recvBuffer := b\<rparr>) = (validatePacketIndex buf st)\<lparr>recvBuffer := b\<rparr>"
  by (simp_all add: validatePacketIndex_def)

lemma tpr_short:
  assumes "skipNonFramed (recvBuffer st) = buf" "length buf < 5"
  shows "tryParseResponse inflate st = (None, st\<lparr>recvBuffer := buf\<rparr>)"
  using assms by (simp add: tryParseResponse_def Let_def RESP_HEADER_SIZE_def)

lemma tpr_err_wait:
  assumes "skipNonFramed (recvBuffer st) = buf" "5 \<le> length buf" "buf ! 1 = AKN_ERR"
    "length buf < 5 + answerSize buf"
  shows "tryParseResponse inflate st = (None, st\<lparr>recvBuffer := buf\<rparr>)"
  using assms by (simp add: tryParseResponse_def Let_def RESP_HEADER_SIZE_def)

lemma tpr_err:
  assumes "skipNonFramed (recvBuffer st) = buf" "5 \<le> length buf" "buf ! 1 = AKN_ERR"
    "5 + answerSize buf \<le> length buf"
  shows "tryParseResponse inflate st =
    (Some (Inl (PacErrorCode (if answerSize buf > 0 then unat (buf ! 5) else 0))),
     st\<lparr>recvBuffer := drop (5 + answerSize buf) buf\<rparr>)"
  using assms by (simp add: tryParseResponse_def Let_def RESP_HEADER_SIZE_def)

lemma tpr_zero:
  assumes "skipNonFramed (recvBuffer st) = buf" "5 \<le> length buf" "buf ! 1 \<noteq> AKN_ERR"
    "answerSize buf = 0"
  shows "tryParseResponse inflate st =
    (Some (Inr []), (validatePacketIndex buf st)\<lparr>recvBuffer := drop 5 buf\<rparr>)"
  using assms by (simp add: tryParseResponse_def Let_def RESP_HEADER_SIZE_def)

lemma tpr_wait:
  assumes "skipNonFramed (recvBuffer st) = buf" "5 \<le> length buf" "buf ! 1 \<noteq> AKN_ERR"
    "answerSize buf \<noteq> 0" "answerSize buf \<le> MAX_BUFFER_SIZE" "length buf < 5 + answerSize buf"
  shows "tryParseResponse inflate st = (None, (validatePacketIndex buf st)\<lparr>recvBuffer := buf\<rparr>)"
  using assms by (simp add: tryParseResponse_def Let_def RESP_HEADER_SIZE_def)

lemma tpr_data:
  assumes "skipNonFramed (recvBuffer st) = buf" "5 \<le> length buf" "buf ! 1 \<noteq> AKN_ERR"
    "answerSize buf \<noteq> 0" "answerSize buf \<le> MAX_BUFFER_SIZE" "5 + answerSize buf \<le> length buf"
  shows "tryParseResponse inflate st =
     (Some (Inr (tryDecompress inflate (slice 5 (5 + answerSize buf) buf))),
      (validatePacketIndex buf st)\<lparr>recvBuffer := drop (5 + answerSize buf) buf\<rparr>)"
  using assms by (simp add: tryParseResponse_def Let_def RESP_HEADER_SIZE_def)

text \<open>The parser on a proper prefix of a frame: no result, nothing consumed.\<close>

lemma easy_prefix:
  assumes len: "length payload < 65536" and n: "n < length (respFrame s p payload)"
    and buf: "recvBuffer st = take n (respFrame s p payload)"
  shows "fst (tryParseResponse inflate st) = None \<and>
     recvBuffer (snd (tryParseResponse inflate st)) = take n (respFrame s p payload)"
proof -
  let ?f = "respFrame s p payload"
  have sk: "skipNonFramed (recvBuffer st) = take n ?f"
    using skip_respFrame [of n s p payload "[]"] buf by simp
  have l: "length (take n ?f) = n" using n by simp
  show ?thesis
  proof (cases "n < 5")
    case True
    then show ?thesis
      using tpr_short [OF sk, of inflate] l by simp
  next
    case False
    then have n5: "5 \<le> n" by simp
    have as: "answerSize (take n ?f) = length payload"
      using answerSize_take [OF n5, of ?f] answerSize_respFrame [OF len, of s p "[]"] by simp
    have pos: "length payload \<noteq> 0" using n n5 by (auto simp add: length_respFrame)
    have mx: "length payload \<le> MAX_BUFFER_SIZE" using len by (simp add: MAX_BUFFER_SIZE_def)
    have w: "length (take n ?f) < 5 + answerSize (take n ?f)"
      using n by (simp add: as length_respFrame)
    have l5: "5 \<le> length (take n ?f)" using l n5 by simp
    show ?thesis
    proof (cases "take n ?f ! 1 = AKN_ERR")
      case True
      show ?thesis using tpr_err_wait [OF sk l5 True w, of inflate] by simp
    next
      case False
      show ?thesis using tpr_wait [OF sk l5 False _ _ w, of inflate] pos mx by (simp add: as)
    qed
  qed
qed

text \<open>
  The parser on a buffer that holds bytes without the marker, then a whole frame, then
  whatever came after it: the whole state that results.
\<close>

lemma easy_full_state:
  assumes len: "length payload < 65536" and g: "FRAME_MARKER \<notin> set g"
    and buf: "recvBuffer st = g @ respFrame s p payload @ rest"
  shows "tryParseResponse inflate st =
     (Some (respResult inflate s payload),
      (if s = AKN_ERR then st else validatePacketIndex (respFrame s p payload) st)\<lparr>recvBuffer := rest\<rparr>)"
proof -
  let ?f = "respFrame s p payload @ rest"
  have "skipNonFramed ?f = ?f"
    using skip_respFrame [of "length ?f" s p payload rest] by simp
  then have sk: "skipNonFramed (recvBuffer st) = ?f"
    using skip_garbage [OF g] buf by simp
  have as: "answerSize ?f = length payload"
    by (rule answerSize_respFrame [OF len])
  have l5: "5 \<le> length ?f" by (simp add: length_respFrame)
  have st: "?f ! 1 = s" by (simp add: respFrame_def)
  have mx: "length payload \<le> MAX_BUFFER_SIZE" using len by (simp add: MAX_BUFFER_SIZE_def)
  have full: "5 + answerSize ?f \<le> length ?f" by (simp add: as length_respFrame)
  obtain h where h: "length h = 5" "respFrame s p payload = h @ payload"
    using respFrame_split by blast
  have dr: "drop (5 + length payload) ?f = rest" by (simp add: h)
  have sl: "slice 5 (5 + length payload) ?f = payload" by (simp add: h slice_def)
  have vp: "validatePacketIndex ?f st = validatePacketIndex (respFrame s p payload) st"
    by (simp add: validatePacketIndex_def respFrame_def)
  have code: "(if 0 < length payload then unat (?f ! 5) else 0) = (case payload of [] \<Rightarrow> 0 | b # bs \<Rightarrow> unat b)"
    by (cases payload) (simp_all add: respFrame_def)
  show ?thesis
  proof (cases "s = AKN_ERR")
    case True
    then have e: "?f ! 1 = AKN_ERR" using st by simp
    have "tryParseResponse inflate st =
       (Some (Inl (PacErrorCode (if 0 < length payload then unat (?f ! 5) else 0))),
        st\<lparr>recvBuffer := rest\<rparr>)"
      using tpr_err [OF sk l5 e full, of inflate] by (simp only: as dr)
    then have "tryParseResponse inflate st =
       (Some (Inl (PacErrorCode (case payload of [] \<Rightarrow> 0 | b # bs \<Rightarrow> unat b))),
        st\<lparr>recvBuffer := rest\<rparr>)"
      by (simp only: code)
    then show ?thesis
      using True by (simp add: respResult_def)
  next
    case False
    then have e: "?f ! 1 \<noteq> AKN_ERR" using st by simp
    show ?thesis
    proof (cases "length payload = 0")
      case True
      then have z: "answerSize ?f = 0" using as by simp
      have "drop 5 ?f = rest" using dr True by simp
      then show ?thesis
        using tpr_zero [OF sk l5 e z, of inflate] True False
        by (simp add: respResult_def tryDecompress_def vp)
    next
      case nz: False
      have a0: "answerSize ?f \<noteq> 0" using nz as by simp
      have am: "answerSize ?f \<le> MAX_BUFFER_SIZE" using mx as by simp
      have "tryParseResponse inflate st =
         (Some (Inr (tryDecompress inflate (slice 5 (5 + length payload) ?f))),
          (validatePacketIndex ?f st)\<lparr>recvBuffer := drop (5 + length payload) ?f\<rparr>)"
        using tpr_data [OF sk l5 e a0 am full, of inflate] by (simp only: as)
      then show ?thesis
        using False by (simp only: dr sl vp respResult_def if_False)
    qed
  qed
qed

lemma easy_full:
  assumes len: "length payload < 65536" and g: "FRAME_MARKER \<notin> set g"
    and buf: "recvBuffer st = g @ respFrame s p payload @ rest"
  shows "fst (tryParseResponse inflate st) = Some (respResult inflate s payload) \<and>
     recvBuffer (snd (tryParseResponse inflate st)) = rest"
  by (simp add: easy_full_state [OF assms])

lemma easy_onData_done: "foldl (easy_onData inflate) (st, Some r) cs = (st, Some r)"
  by (induction cs) (simp_all add: easy_onData_def)

lemma easy_chunks:
  assumes len: "length payload < 65536"
  shows "recvBuffer st @ concat chunks = respFrame s p payload \<Longrightarrow>
         recvBuffer st \<noteq> respFrame s p payload \<Longrightarrow>
         snd (foldl (easy_onData inflate) (st, None) chunks) = Some (respResult inflate s payload) \<and>
         recvBuffer (fst (foldl (easy_onData inflate) (st, None) chunks)) = []"
proof (induction chunks arbitrary: st)
  case Nil
  then show ?case by simp
next
  case (Cons c cs)
  let ?f = "respFrame s p payload"
  let ?st = "st\<lparr>recvBuffer := recvBuffer st @ c\<rparr>"
  have od: "easy_onData inflate (st, None) c =
     (snd (tryParseResponse inflate ?st), fst (tryParseResponse inflate ?st))"
    by (simp add: easy_onData_def Let_def)
  have rb: "recvBuffer ?st = recvBuffer st @ c" by simp
  show ?case
  proof (cases "recvBuffer st @ c = ?f")
    case True
    then have b: "recvBuffer ?st = [] @ ?f @ []" by simp
    have "fst (tryParseResponse inflate ?st) = Some (respResult inflate s payload) \<and>
          recvBuffer (snd (tryParseResponse inflate ?st)) = []"
      by (rule easy_full [OF len _ b]) simp
    then show ?thesis
      by (simp add: od easy_onData_done)
  next
    case False
    have e: "(recvBuffer st @ c) @ concat cs = ?f" using Cons.prems(1) by simp
    note pp = proper_prefix [OF e False]
    have tk: "recvBuffer ?st = take (length (recvBuffer st @ c)) ?f"
      using pp rb by simp
    have pre: "fst (tryParseResponse inflate ?st) = None \<and>
       recvBuffer (snd (tryParseResponse inflate ?st)) = take (length (recvBuffer st @ c)) ?f"
      using pp by (intro easy_prefix [OF len _ tk]) simp
    then have r: "recvBuffer (snd (tryParseResponse inflate ?st)) = recvBuffer st @ c"
      using pp by simp
    have "recvBuffer (snd (tryParseResponse inflate ?st)) @ concat cs = ?f"
      using r e by simp
    moreover have "recvBuffer (snd (tryParseResponse inflate ?st)) \<noteq> ?f"
      using r False by simp
    ultimately show ?thesis
      using Cons.IH [of "snd (tryParseResponse inflate ?st)"] pre by (simp add: od)
  qed
qed

lemma easy_receive_frame:
  assumes "length payload < 65536" "recvBuffer st = []" "concat chunks = respFrame s p payload"
  shows "snd (easy_receive inflate st chunks) = Some (respResult inflate s payload) \<and>
         recvBuffer (fst (easy_receive inflate st chunks)) = []"
proof -
  have "recvBuffer st \<noteq> respFrame s p payload" using assms(2) by (simp add: respFrame_def)
  then show ?thesis
    using easy_chunks [OF assms(1), of st chunks s p inflate] assms(2,3)
    by (simp add: easy_receive_def)
qed

section \<open>Claims about the frame parsers\<close>

lemma concat_singletons: "concat (map (\<lambda>b. [b]) xs) = xs"
  by (induction xs) simp_all

lemma never_too_large: "fst (tryParseResponse inflate st) \<noteq> Some (Inl AnswerTooLarge)"
proof -
  have "\<not> MAX_BUFFER_SIZE < answerSize (skipNonFramed (recvBuffer st))"
    using answerSize_bound [of "skipNonFramed (recvBuffer st)"] by (simp add: MAX_BUFFER_SIZE_def)
  then show ?thesis
    by (simp add: tryParseResponse_def Let_def)
qed

lemma mps_accepts_within_max:
  assumes "8 \<le> length buf" "hasPrefix buf"
    "tryParseFramedResponse decode buf \<noteq> Some (Inl (InvalidFrameLength (payloadLen buf)))"
  shows "uint (lenWord buf) \<le> MAX_PAYLOAD_SIZE"
proof (rule ccontr)
  assume "\<not> uint (lenWord buf) \<le> MAX_PAYLOAD_SIZE"
  then have "MAX_PAYLOAD_SIZE < uint (lenWord buf)" by simp
  from mps_invalid [OF assms(1,2) this, of decode] assms(3) show False by simp
qed

text \<open>
  C2. In both parsers the declared payload length is checked against the hard maximum
  before a payload is waited for or sliced. MPSClient: a buffer that starts with
  \<^verbatim>\<open>P001\<close> and whose four length bytes declare more than 10 MB gets the error result
  \<^verbatim>\<open>invalid frame length\<close> at once, whatever follows; the parser waits (\<open>None\<close>) or
  returns data from such a buffer only when the declared length is within the maximum.
  EasyDrvClient: the two length bytes declare at most 65535, which is below the maximum
  of 500 KB, so no header can declare an oversize payload and the parser never has to
  give the \<^verbatim>\<open>answer too large\<close> result.
\<close>

theorem oversize_length_rejected:
  "(8 \<le> length buf \<and> hasPrefix buf \<and> MAX_PAYLOAD_SIZE < uint (lenWord buf) \<longrightarrow>
      tryParseFramedResponse decode buf = Some (Inl (InvalidFrameLength (payloadLen buf))))
   \<and> (8 \<le> length buf \<and> hasPrefix buf \<and>
        (tryParseFramedResponse decode buf = None \<or> (\<exists>d. tryParseFramedResponse decode buf = Some (Inr d))) \<longrightarrow>
      uint (lenWord buf) \<le> MAX_PAYLOAD_SIZE)
   \<and> answerSize (skipNonFramed (recvBuffer st)) \<le> 65535
   \<and> 65535 < MAX_BUFFER_SIZE
   \<and> fst (tryParseResponse inflate st) \<noteq> Some (Inl AnswerTooLarge)"
proof -
  have a: "8 \<le> length buf \<and> hasPrefix buf \<and> MAX_PAYLOAD_SIZE < uint (lenWord buf) \<longrightarrow>
      tryParseFramedResponse decode buf = Some (Inl (InvalidFrameLength (payloadLen buf)))"
    using mps_invalid by blast
  have b: "8 \<le> length buf \<and> hasPrefix buf \<and>
        (tryParseFramedResponse decode buf = None \<or> (\<exists>d. tryParseFramedResponse decode buf = Some (Inr d))) \<longrightarrow>
      uint (lenWord buf) \<le> MAX_PAYLOAD_SIZE"
    using mps_accepts_within_max [of buf decode] by auto
  have c: "answerSize (skipNonFramed (recvBuffer st)) \<le> 65535"
    by (rule answerSize_bound)
  have d: "65535 < MAX_BUFFER_SIZE" by (simp add: MAX_BUFFER_SIZE_def)
  show ?thesis
    using a b c d never_too_large by blast
qed

theorem oversize_length_rejected_witness:
  "8 \<le> length [0x50, 0x30, 0x30, 0x31, 0x00, 0xA0, 0x00, 0x01 :: byte]
   \<and> hasPrefix [0x50, 0x30, 0x30, 0x31, 0x00, 0xA0, 0x00, 0x01]
   \<and> MAX_PAYLOAD_SIZE < uint (lenWord [0x50, 0x30, 0x30, 0x31, 0x00, 0xA0, 0x00, 0x01])
   \<and> tryParseFramedResponse id [0x50, 0x30, 0x30, 0x31, 0x00, 0xA0, 0x00, 0x01]
       = Some (Inl (InvalidFrameLength 10485761))"
proof -
  have h: "8 \<le> length [0x50, 0x30, 0x30, 0x31, 0x00, 0xA0, 0x00, 0x01 :: byte]
     \<and> hasPrefix [0x50, 0x30, 0x30, 0x31, 0x00, 0xA0, 0x00, 0x01]
     \<and> MAX_PAYLOAD_SIZE < uint (lenWord [0x50, 0x30, 0x30, 0x31, 0x00, 0xA0, 0x00, 0x01])"
    by (simp add: hasPrefix_def lenWord_def MAX_PAYLOAD_SIZE_def)
  have p: "payloadLen [0x50, 0x30, 0x30, 0x31, 0x00, 0xA0, 0x00, 0x01] = 10485761"
    by (simp add: payloadLen_def lenWord_def)
  show ?thesis
    using oversize_length_rejected [of "[0x50, 0x30, 0x30, 0x31, 0x00, 0xA0, 0x00, 0x01]" id] h p
    by simp
qed

text \<open>
  C3, as amended. EasyDrvClient: when the bytes before a complete response frame do not
  contain the marker byte \<^verbatim>\<open>0x73\<close>, the parser drops them and yields exactly that frame's
  result (the probed payload, or the PAC error code for status 7) and leaves the buffer
  empty. MPSClient does not look for a marker: a buffer of eight bytes or more that does
  not begin with \<^verbatim>\<open>P001\<close> is decoded whole as a legacy response.
\<close>

theorem garbage_before_frame:
  "(FRAME_MARKER \<notin> set g \<and> length payload < 65536 \<and> recvBuffer st = g @ respFrame s p payload \<longrightarrow>
      fst (tryParseResponse inflate st) = Some (respResult inflate s payload)
      \<and> recvBuffer (snd (tryParseResponse inflate st)) = [])
   \<and> (8 \<le> length buf \<and> \<not> hasPrefix buf \<longrightarrow>
      tryParseFramedResponse decode buf = Some (Inr (decode buf)))"
proof -
  have "FRAME_MARKER \<notin> set g \<and> length payload < 65536 \<and> recvBuffer st = g @ respFrame s p payload \<longrightarrow>
      fst (tryParseResponse inflate st) = Some (respResult inflate s payload)
      \<and> recvBuffer (snd (tryParseResponse inflate st)) = []"
    using easy_full [of payload g st s p "[]" inflate] by simp
  moreover have "8 \<le> length buf \<and> \<not> hasPrefix buf \<longrightarrow>
      tryParseFramedResponse decode buf = Some (Inr (decode buf))"
    by (simp add: tryParseFramedResponse_def)
  ultimately show ?thesis by blast
qed

theorem garbage_before_frame_witness:
  "FRAME_MARKER \<notin> set [0x50, 0x41, 0x43]
   \<and> length [0x41 :: byte] < 65536
   \<and> recvBuffer ((newDriver [])\<lparr>recvBuffer := [0x50, 0x41, 0x43] @ respFrame 12 0 [0x41]\<rparr>)
       = [0x50, 0x41, 0x43] @ respFrame 12 0 [0x41]
   \<and> fst (tryParseResponse Some ((newDriver [])\<lparr>recvBuffer := [0x50, 0x41, 0x43] @ respFrame 12 0 [0x41]\<rparr>))
       = Some (Inr [0x41])
   \<and> 8 \<le> length ([0x00] @ buildFrame [0x41])
   \<and> \<not> hasPrefix ([0x00] @ buildFrame [0x41])
   \<and> tryParseFramedResponse id ([0x00] @ buildFrame [0x41]) = Some (Inr ([0x00] @ buildFrame [0x41]))"
proof -
  have h: "FRAME_MARKER \<notin> set [0x50, 0x41, 0x43] \<and> length [0x41 :: byte] < 65536
     \<and> recvBuffer ((newDriver [])\<lparr>recvBuffer := [0x50, 0x41, 0x43] @ respFrame 12 0 [0x41]\<rparr>)
       = [0x50, 0x41, 0x43] @ respFrame 12 0 [0x41]"
    by (simp add: FRAME_MARKER_def)
  have k: "8 \<le> length ([0x00] @ buildFrame [0x41]) \<and> \<not> hasPrefix ([0x00] @ buildFrame [0x41])"
    by (simp add: buildFrame_def hasPrefix_def)
  have r: "respResult Some 12 [0x41] = Inr [0x41]"
    by (simp add: respResult_def tryDecompress_def AKN_ERR_def)
  show ?thesis
    using garbage_before_frame [of "[0x50, 0x41, 0x43]" "[0x41]"
        "(newDriver [])\<lparr>recvBuffer := [0x50, 0x41, 0x43] @ respFrame 12 0 [0x41]\<rparr>" 12 0 Some
        "[0x00] @ buildFrame [0x41]" id] h k r
    by simp
qed

text \<open>
  C3 as stated fails in both clients. EasyDrvClient: the stray bytes \<^verbatim>\<open>stray\<close> begin with
  the marker byte, so they are taken for a header that announces 24953 bytes and the
  frame behind them is not yielded. MPSClient: one stray byte before a \<^verbatim>\<open>P001\<close> frame
  makes the whole buffer a legacy response.
\<close>

theorem garbage_before_frame_counterexample:
  "snd (easy_receive Some (newDriver []) [[0x73, 0x74, 0x72, 0x61, 0x79] @ respFrame 12 0 [0x41]])
     \<noteq> Some (respResult Some 12 [0x41])
   \<and> mps_receive id [[0x00] @ buildFrame [0x41]] \<noteq> Some (Inr (id [0x41]))"
proof -
  have "snd (easy_receive Some (newDriver []) [[0x73, 0x74, 0x72, 0x61, 0x79] @ respFrame 12 0 [0x41]]) = None"
    by (simp add: easy_receive_def easy_onData_def tryParseResponse_def newDriver_def respFrame_def
        FRAME_MARKER_def AKN_ERR_def RESP_HEADER_SIZE_def MAX_BUFFER_SIZE_def answerSize_def
        validatePacketIndex_def Let_def)
  moreover have "mps_receive id [[0x00] @ buildFrame [0x41]] = Some (Inr ([0x00] @ buildFrame [0x41]))"
    by (simp add: mps_receive_def mps_onData_def tryParseFramedResponse_def buildFrame_def hasPrefix_def)
  ultimately show ?thesis by simp
qed

text \<open>
  C4. A complete valid frame delivered in any chunks, byte by byte among them, gives
  the same single result as the frame delivered in one chunk: the decoded payload. While
  the buffer holds a proper prefix of the frame the parser returns \<^verbatim>\<open>null\<close> and leaves
  the buffer as it is; with the last byte it yields the frame, and in EasyDrvClient the
  buffer is empty afterwards, so nothing is left to be yielded twice. A valid frame is
  \<open>buildFrame m\<close> with at most 10 MB of payload for MPSClient and \<open>respFrame s p payload\<close>
  with a payload below 65536 bytes for EasyDrvClient, whose receive buffer is empty when
  a request is sent.
\<close>

theorem frame_reassembly:
  assumes "int (length m) \<le> MAX_PAYLOAD_SIZE" and "length payload < 65536" and "recvBuffer st = []"
  shows
    "mps_receive decode (map (\<lambda>b. [b]) (buildFrame m)) = mps_receive decode [buildFrame m]
     \<and> mps_receive decode [buildFrame m] = Some (Inr (decode m))
     \<and> (\<forall>chunks. concat chunks = buildFrame m \<longrightarrow> mps_receive decode chunks = Some (Inr (decode m)))
     \<and> (\<forall>n < length (buildFrame m). tryParseFramedResponse decode (take n (buildFrame m)) = None)
     \<and> snd (easy_receive inflate st (map (\<lambda>b. [b]) (respFrame s p payload)))
         = snd (easy_receive inflate st [respFrame s p payload])
     \<and> snd (easy_receive inflate st [respFrame s p payload]) = Some (respResult inflate s payload)
     \<and> (\<forall>chunks. concat chunks = respFrame s p payload \<longrightarrow>
           snd (easy_receive inflate st chunks) = Some (respResult inflate s payload)
           \<and> recvBuffer (fst (easy_receive inflate st chunks)) = [])
     \<and> (\<forall>n < length (respFrame s p payload). \<forall>st'. recvBuffer st' = take n (respFrame s p payload) \<longrightarrow>
           fst (tryParseResponse inflate st') = None
           \<and> recvBuffer (snd (tryParseResponse inflate st')) = take n (respFrame s p payload))"
proof -
  have m1: "\<forall>chunks. concat chunks = buildFrame m \<longrightarrow> mps_receive decode chunks = Some (Inr (decode m))"
    using mps_receive_frame [OF assms(1)] by blast
  have m2: "mps_receive decode [buildFrame m] = Some (Inr (decode m))"
    using m1 by simp
  have m3: "mps_receive decode (map (\<lambda>b. [b]) (buildFrame m)) = Some (Inr (decode m))"
    using m1 concat_singletons by blast
  have m4: "\<forall>n < length (buildFrame m). tryParseFramedResponse decode (take n (buildFrame m)) = None"
    using mps_prefix_None [OF assms(1)] by blast
  have e1: "\<forall>chunks. concat chunks = respFrame s p payload \<longrightarrow>
           snd (easy_receive inflate st chunks) = Some (respResult inflate s payload)
           \<and> recvBuffer (fst (easy_receive inflate st chunks)) = []"
    using easy_receive_frame [OF assms(2,3)] by blast
  have e2: "snd (easy_receive inflate st [respFrame s p payload]) = Some (respResult inflate s payload)"
    using e1 by simp
  have e3: "snd (easy_receive inflate st (map (\<lambda>b. [b]) (respFrame s p payload)))
      = Some (respResult inflate s payload)"
    using e1 concat_singletons by blast
  have e4: "\<forall>n < length (respFrame s p payload). \<forall>st'. recvBuffer st' = take n (respFrame s p payload) \<longrightarrow>
           fst (tryParseResponse inflate st') = None
           \<and> recvBuffer (snd (tryParseResponse inflate st')) = take n (respFrame s p payload)"
    using easy_prefix [OF assms(2)] by blast
  show ?thesis
    using m1 m2 m3 m4 e1 e2 e3 e4 by simp
qed

theorem frame_reassembly_witness:
  "int (length [0x41, 0x42 :: byte]) \<le> MAX_PAYLOAD_SIZE
   \<and> length [0x43, 0x44 :: byte] < 65536
   \<and> recvBuffer (newDriver []) = []
   \<and> mps_receive id (map (\<lambda>b. [b]) (buildFrame [0x41, 0x42])) = Some (Inr [0x41, 0x42])
   \<and> mps_receive id [buildFrame [0x41, 0x42]] = Some (Inr [0x41, 0x42])
   \<and> snd (easy_receive Some (newDriver []) (map (\<lambda>b. [b]) (respFrame 12 0 [0x43, 0x44])))
       = Some (Inr [0x43, 0x44])
   \<and> snd (easy_receive Some (newDriver []) [respFrame 12 0 [0x43, 0x44]]) = Some (Inr [0x43, 0x44])"
proof -
  have h1: "int (length [0x41, 0x42 :: byte]) \<le> MAX_PAYLOAD_SIZE"
    by (simp add: MAX_PAYLOAD_SIZE_def)
  have h2: "length [0x43, 0x44 :: byte] < 65536" by simp
  have h3: "recvBuffer (newDriver []) = []" by (simp add: newDriver_def)
  have r: "respResult Some 12 [0x43, 0x44] = Inr [0x43, 0x44]"
    by (simp add: respResult_def tryDecompress_def AKN_ERR_def)
  show ?thesis
    using frame_reassembly [OF h1 h2 h3, of id Some 12 0] h1 h2 h3 r
    by simp
qed

text \<open>
  C9. Every frame that \<^verbatim>\<open>_sendFrame\<close> sends carries the packet index after it has been
  moved on by one modulo 256, so 255 is followed by 0. A response that echoes another
  index than the expected one is parsed and returned like any other: the result of the
  parser does not depend on the expected index, and on a complete frame the only trace
  of the mismatch is one warning in the log.
\<close>

theorem packet_index_modulo_256:
  "(socket st = Some sk \<and> \<not> destroyed sk \<longrightarrow>
      fst (sendFrame cmdData st) = Resolved ()
      \<and> packetIndex (snd (sendFrame cmdData st)) = (packetIndex st + 1) mod 256
      \<and> last (sent (snd (sendFrame cmdData st))) ! 3 = word_of_nat ((packetIndex st + 1) mod 256)
      \<and> (packetIndex st = 255 \<longrightarrow> packetIndex (snd (sendFrame cmdData st)) = 0))
   \<and> fst (tryParseResponse inflate (st\<lparr>packetIndex := q\<rparr>)) = fst (tryParseResponse inflate st)
   \<and> (length payload < 65536 \<and> FRAME_MARKER \<notin> set g \<and> recvBuffer st = g @ respFrame s p payload @ rest
        \<and> s \<noteq> AKN_ERR \<and> unat p \<noteq> packetIndex st \<longrightarrow>
      tryParseResponse inflate st =
        (Some (Inr (tryDecompress inflate payload)),
         st\<lparr>logged := logged st @ [Warn ''packet index mismatch''], recvBuffer := rest\<rparr>))"
proof -
  have a: "socket st = Some sk \<and> \<not> destroyed sk \<longrightarrow>
      fst (sendFrame cmdData st) = Resolved ()
      \<and> packetIndex (snd (sendFrame cmdData st)) = (packetIndex st + 1) mod 256
      \<and> last (sent (snd (sendFrame cmdData st))) ! 3 = word_of_nat ((packetIndex st + 1) mod 256)
      \<and> (packetIndex st = 255 \<longrightarrow> packetIndex (snd (sendFrame cmdData st)) = 0)"
    by (simp add: sendFrame_def Let_def and255)
  have b: "fst (tryParseResponse inflate (st\<lparr>packetIndex := q\<rparr>)) = fst (tryParseResponse inflate st)"
    by (simp add: tryParseResponse_def Let_def)
  have c: "length payload < 65536 \<and> FRAME_MARKER \<notin> set g \<and> recvBuffer st = g @ respFrame s p payload @ rest
        \<and> s \<noteq> AKN_ERR \<and> unat p \<noteq> packetIndex st \<longrightarrow>
      tryParseResponse inflate st =
        (Some (Inr (tryDecompress inflate payload)),
         st\<lparr>logged := logged st @ [Warn ''packet index mismatch''], recvBuffer := rest\<rparr>)"
  proof (intro impI)
    assume h: "length payload < 65536 \<and> FRAME_MARKER \<notin> set g \<and> recvBuffer st = g @ respFrame s p payload @ rest
        \<and> s \<noteq> AKN_ERR \<and> unat p \<noteq> packetIndex st"
    then have "tryParseResponse inflate st =
       (Some (respResult inflate s payload),
        (if s = AKN_ERR then st else validatePacketIndex (respFrame s p payload) st)\<lparr>recvBuffer := rest\<rparr>)"
      by (intro easy_full_state) simp_all
    then show "tryParseResponse inflate st =
        (Some (Inr (tryDecompress inflate payload)),
         st\<lparr>logged := logged st @ [Warn ''packet index mismatch''], recvBuffer := rest\<rparr>)"
      using h by (simp add: respResult_def validatePacketIndex_def respFrame_def)
  qed
  show ?thesis using a b c by blast
qed

theorem packet_index_modulo_256_witness:
  "socket ((newDriver [])\<lparr>socket := Some \<lparr>destroyed = False\<rparr>, packetIndex := 255\<rparr>) = Some \<lparr>destroyed = False\<rparr>
   \<and> \<not> destroyed \<lparr>destroyed = False\<rparr>
   \<and> packetIndex (snd (sendFrame [101] ((newDriver [])\<lparr>socket := Some \<lparr>destroyed = False\<rparr>, packetIndex := 255\<rparr>))) = 0
   \<and> length [0x41 :: byte] < 65536 \<and> FRAME_MARKER \<notin> set []
   \<and> (12 :: byte) \<noteq> AKN_ERR \<and> unat (9 :: byte) \<noteq> packetIndex (newDriver [])
   \<and> fst (tryParseResponse Some ((newDriver [])\<lparr>recvBuffer := respFrame 12 9 [0x41]\<rparr>)) = Some (Inr [0x41])
   \<and> logged (snd (tryParseResponse Some ((newDriver [])\<lparr>recvBuffer := respFrame 12 9 [0x41]\<rparr>)))
       = [Warn ''packet index mismatch'']"
proof -
  let ?a = "(newDriver [])\<lparr>socket := Some \<lparr>destroyed = False\<rparr>, packetIndex := 255\<rparr>"
  let ?b = "(newDriver [])\<lparr>recvBuffer := respFrame 12 9 [0x41]\<rparr>"
  have h1: "socket ?a = Some \<lparr>destroyed = False\<rparr> \<and> \<not> destroyed \<lparr>destroyed = False\<rparr>"
    by simp
  have p: "packetIndex ?a = 255" by simp
  have h2: "length [0x41 :: byte] < 65536 \<and> FRAME_MARKER \<notin> set [] \<and> recvBuffer ?b = [] @ respFrame 12 9 [0x41] @ []
      \<and> (12 :: byte) \<noteq> AKN_ERR \<and> unat (9 :: byte) \<noteq> packetIndex ?b"
    by (simp add: AKN_ERR_def newDriver_def)
  have t: "tryDecompress Some [0x41] = [0x41]" by (simp add: tryDecompress_def)
  have x: "packetIndex (snd (sendFrame [101] ?a)) = 0"
    using packet_index_modulo_256 [of ?a "\<lparr>destroyed = False\<rparr>" "[101]"] h1 p by simp
  have y: "tryParseResponse Some ?b =
        (Some (Inr (tryDecompress Some [0x41])),
         ?b\<lparr>logged := logged ?b @ [Warn ''packet index mismatch''], recvBuffer := []\<rparr>)"
    using packet_index_modulo_256 [of ?b _ _ Some _ "[0x41]" "[]" 12 9 "[]"] h2 by blast
  have z: "logged ?b = []" by (simp add: newDriver_def)
  show ?thesis
    using h1 h2 x y z t by (simp add: newDriver_def)
qed

section \<open>Claims about reading the Lua state\<close>

text \<open>
  C7. The depth guard of \<^verbatim>\<open>_readStackValue\<close> and \<^verbatim>\<open>_readTable\<close> would cut the tree
  below ten tables, but the Lua stack gives out first: every table that is being read
  keeps a key and a value on the stack, and with the global itself the tenth table that
  has an entry needs a 21st slot. \<^verbatim>\<open>lua_next\<close> throws there and \<^verbatim>\<open>get\<close> returns
  \<^verbatim>\<open>undefined\<close> for the whole read. So ten tables one inside the other read as
  \<^verbatim>\<open>undefined\<close>, where nine read as nine objects; a table that holds itself reads as
  \<^verbatim>\<open>undefined\<close> and not as ten objects. The stack is left with 21 slots in use, so the
  next \<^verbatim>\<open>get\<close> fails at once whatever it reads, and \<^verbatim>\<open>_extractLuaState\<close> keeps the state
  that it had.
\<close>

theorem lua_read_stack_overflow:
  "lua_get plainConv (chainVM 10) ''t'' = (None, (chainVM 10)\<lparr>lua_top := 21\<rparr>)
   \<and> lua_get plainConv (chainVM 9) ''t'' = (Some (nest 9 (JNum 1)), chainVM 9)
   \<and> lua_get plainConv cyclicVM ''t'' = (None, cyclicVM\<lparr>lua_top := 21\<rparr>)
   \<and> lua_get plainConv ((chainVM 1)\<lparr>lua_top := 21\<rparr>) ''t'' = (None, (chainVM 1)\<lparr>lua_top := 22\<rparr>)
   \<and> extractLuaState plainConv (chainVM 10) (easyWith ''t.V1.ST'') = easyWith ''t.V1.ST''"
proof -
  have a: "lua_get plainConv (chainVM 10) ''t'' = (None, (chainVM 10)\<lparr>lua_top := 21\<rparr>)"
    by (simp add: lua_get_def chainVM_def LUA_MINSTACK_def plainConv_def)
  have b: "lua_get plainConv (chainVM 9) ''t'' = (Some (nest 9 (JNum 1)), chainVM 9)"
    by (simp add: lua_get_def chainVM_def LUA_MINSTACK_def plainConv_def eval_nat_numeral)
  have c: "lua_get plainConv cyclicVM ''t'' = (None, cyclicVM\<lparr>lua_top := 21\<rparr>)"
    by (simp add: lua_get_def cyclicVM_def LUA_MINSTACK_def plainConv_def)
  have d: "lua_get plainConv ((chainVM 1)\<lparr>lua_top := 21\<rparr>) ''t'' = (None, (chainVM 1)\<lparr>lua_top := 22\<rparr>)"
    by (simp add: lua_get_def chainVM_def LUA_MINSTACK_def plainConv_def)
  have e: "extractLuaState plainConv (chainVM 10) (easyWith ''t.V1.ST'') = easyWith ''t.V1.ST''"
    by (simp add: extractLuaState_def a)
  show ?thesis using a b c d e by simp
qed

section \<open>Claims about resolving a tag's value\<close>

lemmas builtins = objectEntries_def arrayEntries_def stringEntries_def numberEntries_def
  booleanEntries_def protoEntries_def orElse_def indexed_def arrayIndex_def isDigit_def

text \<open>
  C8. \<^verbatim>\<open>val[parts[i]]\<close> finds what the value inherits as well as what it has, and
  \<^verbatim>\<open>typeof val !== 'object'\<close> lets a function pass. So for an address that ends in the
  name of a member of \<^verbatim>\<open>Object.prototype\<close> both resolvers return that function, whatever
  the state holds: \<^verbatim>\<open>constructor\<close> and \<^verbatim>\<open>toString\<close> on the state itself,
  \<^verbatim>\<open>t.V1.constructor\<close> and \<^verbatim>\<open>Dev.u1.constructor\<close> below it. \<^verbatim>\<open>polling()\<close> does not skip
  such a tag: the function goes to \<^verbatim>\<open>tagValueCompose\<close>, and with a composition that
  passes the raw value on it is cached as the tag's value. A path to a number or a string
  gives that value and a path to nothing gives \<^verbatim>\<open>undefined\<close>.
\<close>

theorem resolve_inherited_member:
  "easy_resolveTagValue (easyWith ''constructor'') (tagAt ''constructor'') = Inr (Some (JFun ''Object''))
   \<and> easy_resolveTagValue (newDriver []) (tagAt ''toString'')
       = Inr (Some (JFun ''Object.prototype.toString''))
   \<and> easy_resolveTagValue (easyWith ''t.V1.constructor'') (tagAt ''t.V1.constructor'')
       = Inr (Some (JFun ''Object''))
   \<and> mps_resolveTagValue (mpsWith ''Dev.u1.constructor'') (tagAt ''Dev.u1.constructor'')
       = Inr (Some (JFun ''Object''))
   \<and> map (\<lambda>e. (fst e, s_value (snd e)))
        (varsValue (pollingCycle easy_resolveTagValue passOn (\<lambda>s n. False) 7 (easyWith ''constructor'')))
       = [(''id1'', JFun ''Object'')]
   \<and> easy_resolveTagValue (easyWith ''t.V1.ST'') (tagAt ''t.V1.ST'') = Inr (Some (JNum 1))
   \<and> easy_resolveTagValue (easyWith ''t.V1.XX'') (tagAt ''t.V1.XX'') = Inr None
   \<and> mps_resolveTagValue (mpsWith ''Dev.u1.State'') (tagAt ''Dev.u1.State'') = Inr (Some (JStr ''run''))"
proof -
  have a: "easy_resolveTagValue (easyWith ''constructor'') (tagAt ''constructor'') = Inr (Some (JFun ''Object''))"
    by (simp add: easy_resolveTagValue_def easyWith_def tagAt_def tagAddr_def newDriver_def builtins)
  have b: "easy_resolveTagValue (newDriver []) (tagAt ''toString'')
       = Inr (Some (JFun ''Object.prototype.toString''))"
    by (simp add: easy_resolveTagValue_def tagAt_def tagAddr_def newDriver_def builtins)
  have c: "easy_resolveTagValue (easyWith ''t.V1.constructor'') (tagAt ''t.V1.constructor'')
       = Inr (Some (JFun ''Object''))"
    by (simp add: easy_resolveTagValue_def easyWith_def tagAt_def tagAddr_def newDriver_def builtins)
  have d: "mps_resolveTagValue (mpsWith ''Dev.u1.constructor'') (tagAt ''Dev.u1.constructor'')
       = Inr (Some (JFun ''Object''))"
    by (simp add: mps_resolveTagValue_def mpsWith_def tagAt_def tagAddr_def newDriver_def builtins)
  have e: "map (\<lambda>e. (fst e, s_value (snd e)))
        (varsValue (pollingCycle easy_resolveTagValue passOn (\<lambda>s n. False) 7 (easyWith ''constructor'')))
       = [(''id1'', JFun ''Object'')]"
    by (simp add: pollingCycle_def afterLoop_def tagLoop_def tagStep_def emitValues_def emitStatus_def
        passOn_def easy_resolveTagValue_def easyWith_def tagAt_def tagAddr_def newDriver_def
        Let_def builtins)
  have f: "easy_resolveTagValue (easyWith ''t.V1.ST'') (tagAt ''t.V1.ST'') = Inr (Some (JNum 1))"
    by (simp add: easy_resolveTagValue_def easyWith_def tagAt_def tagAddr_def newDriver_def builtins)
  have g: "easy_resolveTagValue (easyWith ''t.V1.XX'') (tagAt ''t.V1.XX'') = Inr None"
    by (simp add: easy_resolveTagValue_def easyWith_def tagAt_def tagAddr_def newDriver_def builtins)
  have h: "mps_resolveTagValue (mpsWith ''Dev.u1.State'') (tagAt ''Dev.u1.State'') = Inr (Some (JStr ''run''))"
    by (simp add: mps_resolveTagValue_def mpsWith_def tagAt_def tagAddr_def newDriver_def builtins)
  show ?thesis using a b c d e f g h by simp
qed

section \<open>Claims about disconnect\<close>

lemma cleared_all: "list_all (\<lambda>e. s_value (snd e) = JNull) (map (\<lambda>e. (fst e, (snd e)\<lparr>s_value := JNull\<rparr>)) vv)"
  by (induction vv) simp_all

lemma mps_disconnect_state:
  "mps_disconnect env st = (Resolved True, st')
   \<Longrightarrow> socket st' = None \<and> \<not> connected_flag st' \<and> \<not> working st' \<and> overloading_cnt st' = 0
     \<and> lastStatus st' = ''connect-off''
     \<and> varsValue st' = map (\<lambda>e. (fst e, (snd e)\<lparr>s_value := JNull\<rparr>)) (varsValue st)
     \<and> events st' = events st @ [StatusChanged ''connect-off'', ValueChanged (varsValue st')]"
  by (auto simp add: mps_disconnect_def Let_def mps_checkWorking_def clearVarsValue_def
      emitValues_def emitStatus_def split: option.splits if_splits)

lemma mps_disconnect_resolves: "fst (mps_disconnect env st) = Resolved True"
  by (simp add: mps_disconnect_def Let_def)

lemma easy_disconnect_state:
  "easy_disconnect env st = (Resolved True, st')
   \<Longrightarrow> socket st' = None \<and> \<not> connected_flag st' \<and> \<not> working st' \<and> overloading_cnt st' = 0
     \<and> lastStatus st' = ''connect-off''
     \<and> varsValue st' = map (\<lambda>e. (fst e, (snd e)\<lparr>s_value := JNull\<rparr>)) (varsValue st)
     \<and> events st' = events st @ [StatusChanged ''connect-off'', ValueChanged (varsValue st')]"
  by (auto simp add: easy_disconnect_def Let_def easy_checkWorking_def clearVarsValue_def
      emitValues_def emitStatus_def split: option.splits if_splits)

lemma easy_disconnect_resolves: "fst (easy_disconnect env st) = Resolved True"
  by (simp add: easy_disconnect_def Let_def)

text \<open>
  C6. \<^verbatim>\<open>disconnect()\<close> of either driver, from any state and whatever the socket does
  when it is written to, stripped of its listeners or destroyed: the promise resolves
  (with \<^verbatim>\<open>true\<close>), and afterwards the socket is \<^verbatim>\<open>null\<close>, \<^verbatim>\<open>connected\<close> is false, the
  cache has the entries it had, each with value \<^verbatim>\<open>null\<close>, and exactly two events have
  been emitted: the status \<^verbatim>\<open>connect-off\<close>, then the values of the cleared cache.
\<close>

theorem disconnect_safe:
  "fst (mps_disconnect env st) = Resolved True
   \<and> socket (snd (mps_disconnect env st)) = None
   \<and> \<not> connected_flag (snd (mps_disconnect env st))
   \<and> map fst (varsValue (snd (mps_disconnect env st))) = map fst (varsValue st)
   \<and> list_all (\<lambda>e. s_value (snd e) = JNull) (varsValue (snd (mps_disconnect env st)))
   \<and> events (snd (mps_disconnect env st))
        = events st @ [StatusChanged ''connect-off'', ValueChanged (varsValue (snd (mps_disconnect env st)))]
   \<and> lastStatus (snd (mps_disconnect env st)) = ''connect-off''
   \<and> fst (easy_disconnect env st) = Resolved True
   \<and> socket (snd (easy_disconnect env st)) = None
   \<and> \<not> connected_flag (snd (easy_disconnect env st))
   \<and> map fst (varsValue (snd (easy_disconnect env st))) = map fst (varsValue st)
   \<and> list_all (\<lambda>e. s_value (snd e) = JNull) (varsValue (snd (easy_disconnect env st)))
   \<and> events (snd (easy_disconnect env st))
        = events st @ [StatusChanged ''connect-off'', ValueChanged (varsValue (snd (easy_disconnect env st)))]
   \<and> lastStatus (snd (easy_disconnect env st)) = ''connect-off''"
proof -
  have m: "mps_disconnect env st = (Resolved True, snd (mps_disconnect env st))"
    using mps_disconnect_resolves [of env st] by (simp add: prod_eq_iff)
  have e: "easy_disconnect env st = (Resolved True, snd (easy_disconnect env st))"
    using easy_disconnect_resolves [of env st] by (simp add: prod_eq_iff)
  note ms = mps_disconnect_state [OF m]
  note es = easy_disconnect_state [OF e]
  have mv: "map fst (varsValue (snd (mps_disconnect env st))) = map fst (varsValue st)"
    using ms by (simp add: comp_def)
  have ev: "map fst (varsValue (snd (easy_disconnect env st))) = map fst (varsValue st)"
    using es by (simp add: comp_def)
  have mc: "list_all (\<lambda>e. s_value (snd e) = JNull) (varsValue (snd (mps_disconnect env st)))"
    using ms cleared_all [of "varsValue st"] by simp
  have ec: "list_all (\<lambda>e. s_value (snd e) = JNull) (varsValue (snd (easy_disconnect env st)))"
    using es cleared_all [of "varsValue st"] by simp
  show ?thesis
    using mps_disconnect_resolves [of env st] easy_disconnect_resolves [of env st] ms es mv ev mc ec
    by simp
qed

text \<open>
  Two of the states the claim names: a driver that was never connected, and a connected
  one with a socket whose calls all throw and with a value in the cache.
\<close>

theorem disconnect_safe_witness:
  "snd (mps_disconnect \<lparr>writes_ok = 3, remove_throws = False\<rparr> (newDriver []))
     = (newDriver [])\<lparr>lastStatus := ''connect-off'',
                      events := [StatusChanged ''connect-off'', ValueChanged []]\<rparr>
   \<and> socket (snd (easy_disconnect \<lparr>writes_ok = 0, remove_throws = True\<rparr>
        ((newDriver [])\<lparr>socket := Some \<lparr>destroyed = False\<rparr>, connected_flag := True,
           varsValue := [(''id1'', \<lparr>s_id = ''id1'', s_value = JNum 5, s_rawValue = JNum 5,
              s_type = ''number'', s_changed = False, s_timestamp = 1,
              s_daq = \<lparr>daq_enabled = False, daq_changed = False, daq_interval = 0\<rparr>\<rparr>)]\<rparr>))) = None
   \<and> varsValue (snd (easy_disconnect \<lparr>writes_ok = 0, remove_throws = True\<rparr>
        ((newDriver [])\<lparr>socket := Some \<lparr>destroyed = False\<rparr>, connected_flag := True,
           varsValue := [(''id1'', \<lparr>s_id = ''id1'', s_value = JNum 5, s_rawValue = JNum 5,
              s_type = ''number'', s_changed = False, s_timestamp = 1,
              s_daq = \<lparr>daq_enabled = False, daq_changed = False, daq_interval = 0\<rparr>\<rparr>)]\<rparr>)))
       = [(''id1'', \<lparr>s_id = ''id1'', s_value = JNull, s_rawValue = JNum 5,
              s_type = ''number'', s_changed = False, s_timestamp = 1,
              s_daq = \<lparr>daq_enabled = False, daq_changed = False, daq_interval = 0\<rparr>\<rparr>)]"
proof -
  let ?c = "(newDriver [])\<lparr>socket := Some \<lparr>destroyed = False\<rparr>, connected_flag := True,
           varsValue := [(''id1'', \<lparr>s_id = ''id1'', s_value = JNum 5, s_rawValue = JNum 5,
              s_type = ''number'', s_changed = False, s_timestamp = 1,
              s_daq = \<lparr>daq_enabled = False, daq_changed = False, daq_interval = 0\<rparr>\<rparr>)]\<rparr>"
  have a: "snd (mps_disconnect \<lparr>writes_ok = 3, remove_throws = False\<rparr> (newDriver []))
     = (newDriver [])\<lparr>lastStatus := ''connect-off'',
                      events := [StatusChanged ''connect-off'', ValueChanged []]\<rparr>"
    by (simp add: mps_disconnect_def mps_checkWorking_def clearVarsValue_def emitValues_def
        emitStatus_def newDriver_def Let_def)
  have b: "varsValue (snd (easy_disconnect \<lparr>writes_ok = 0, remove_throws = True\<rparr> ?c))
       = [(''id1'', \<lparr>s_id = ''id1'', s_value = JNull, s_rawValue = JNum 5,
              s_type = ''number'', s_changed = False, s_timestamp = 1,
              s_daq = \<lparr>daq_enabled = False, daq_changed = False, daq_interval = 0\<rparr>\<rparr>)]"
    by (simp add: easy_disconnect_def easy_checkWorking_def clearVarsValue_def emitValues_def
        emitStatus_def newDriver_def Let_def)
  show ?thesis
    using disconnect_safe [of "\<lparr>writes_ok = 0, remove_throws = True\<rparr>" ?c] a b
    by simp
qed

section \<open>Claims about the overload guard\<close>

lemma mps_refused_count:
  assumes "working st" "overloading_cnt st < 2"
  shows "mps_checkWorking True st = (False, st\<lparr>overloading_cnt := overloading_cnt st + 1\<rparr>)"
  using assms by (simp add: mps_checkWorking_def Let_def)

lemma mps_refused_busy:
  assumes "working st" "overloading_cnt st = 2"
  shows "mps_checkWorking True st =
    (False, st\<lparr>overloading_cnt := 0, lastStatus := ''connect-busy'',
               events := events st @ [StatusChanged ''connect-busy''],
               logged := logged st @ [Warn ''working overload! polling too fast'']\<rparr>)"
  using assms by (simp add: mps_checkWorking_def Let_def emitStatus_def)

lemma easy_refused_count:
  assumes "working st" "overloading_cnt st < 2"
  shows "easy_checkWorking True st =
    (False, st\<lparr>overloading_cnt := overloading_cnt st + 1, logged := logged st @ [Warn ''working overload!'']\<rparr>)"
  using assms by (simp add: easy_checkWorking_def Let_def)

lemma easy_refused_busy:
  assumes "working st" "overloading_cnt st = 2"
  shows "easy_checkWorking True st =
    (False, st\<lparr>overloading_cnt := 0, lastStatus := ''connect-busy'',
               events := events st @ [StatusChanged ''connect-busy''],
               logged := logged st @ [Warn ''working overload!'']\<rparr>)"
  using assms by (simp add: easy_checkWorking_def Let_def emitStatus_def)

lemma begin_refused:
  "mps_checkWorking True st = (False, st') \<Longrightarrow>
     mps_polling_begin c d ts st = (Refused, st') \<and> mps_connect_begin st = (Some (Rejected ''busy''), st')"
  "easy_checkWorking True st = (False, st') \<Longrightarrow>
     easy_polling_begin st = (Refused, st') \<and> easy_connect_begin st = (Some (Rejected ''busy''), st')"
  by (simp_all add: mps_polling_begin_def mps_connect_begin_def easy_polling_begin_def easy_connect_begin_def)

lemma connect_admitted:
  assumes "\<not> working st"
  shows "fst (mps_connect_begin st) = None \<and> working (snd (mps_connect_begin st))
         \<and> overloading_cnt (snd (mps_connect_begin st)) = overloading_cnt st"
    and "fst (easy_connect_begin st) = None \<and> working (snd (easy_connect_begin st))
         \<and> overloading_cnt (snd (easy_connect_begin st)) = overloading_cnt st"
  using assms
  by (simp_all add: mps_connect_begin_def mps_checkWorking_def
      easy_connect_begin_def easy_checkWorking_def Let_def)

lemma polling_admitted:
  assumes "\<not> working st"
  shows "fst (mps_polling_begin c d ts st) = Awaiting \<longrightarrow>
           snd (mps_polling_begin c d ts st) = st\<lparr>working := True\<rparr>"
    and "fst (easy_polling_begin st) = Awaiting \<longrightarrow>
           snd (easy_polling_begin st) = st\<lparr>working := True\<rparr>"
  using assms
  by (simp_all add: mps_polling_begin_def mps_checkWorking_def
      easy_polling_begin_def easy_checkWorking_def Let_def)

lemma released:
  "\<not> working (snd (mps_checkWorking False st))"
  "\<not> working (snd (easy_checkWorking False st))"
  by (simp_all add: mps_checkWorking_def easy_checkWorking_def Let_def)

lemma working_kept:
  "working (emitStatus status st) = working st"
  "working (clearVarsValue st) = working st"
  by (simp_all add: emitStatus_def clearVarsValue_def emitValues_def Let_def)

lemma mps_call_over:
  "\<not> working (mps_polling_end c d ts net st)"
  "\<not> working (snd (mps_connect_end err st))"
proof -
  show "\<not> working (mps_polling_end c d ts net st)"
    by (simp add: mps_polling_end_def Let_def released)
  show "\<not> working (snd (mps_connect_end err st))"
    by (cases err) (simp_all add: mps_connect_end_def Let_def released)
qed

lemma easy_call_over:
  "\<not> working (easy_polling_end ks c d ts states st)"
  "\<not> working (snd (easy_connect_end ks err info_ok cstates st))"
proof -
  show "\<not> working (easy_polling_end ks c d ts states st)"
  proof (cases states)
    case (Threw e)
    then show ?thesis by (simp add: easy_polling_end_def released)
  next
    case (Returned answer)
    show ?thesis
    proof (cases "getPACStates_end ks answer st")
      case (Pair ok st1)
      then show ?thesis using Returned by (cases ok) (simp_all add: easy_polling_end_def released)
    qed
  qed
  show "\<not> working (snd (easy_connect_end ks err info_ok cstates st))"
    by (cases err) (simp_all add: easy_connect_end_def Let_def released)
qed

lemma mps_early_end:
  assumes "fst (mps_polling_begin c d ts st) = Ended"
  shows "\<not> working (snd (mps_polling_begin c d ts st))"
proof (cases "mps_checkWorking True st")
  case (Pair ok st1)
  show ?thesis
  proof (cases ok)
    case False
    then show ?thesis using assms Pair by (simp add: mps_polling_begin_def)
  next
    case True
    then show ?thesis
      using assms Pair
      by (auto simp add: mps_polling_begin_def released split: if_splits option.splits)
  qed
qed

lemma easy_early_end:
  assumes "fst (easy_polling_begin st) = Ended"
  shows "\<not> working (snd (easy_polling_begin st))"
proof (cases "easy_checkWorking True st")
  case (Pair ok st1)
  show ?thesis
  proof (cases ok)
    case False
    then show ?thesis using assms Pair by (simp add: easy_polling_begin_def)
  next
    case True
    then show ?thesis
      using assms Pair
      by (auto simp add: easy_polling_begin_def released split: if_splits option.splits)
  qed
qed

lemma disconnect_releases:
  "\<not> working (snd (mps_disconnect env st))"
  "\<not> working (snd (easy_disconnect env st))"
proof -
  have m: "\<not> working (snd (mps_checkWorking False st))" by (rule released)
  show "\<not> working (snd (mps_disconnect env st))"
    using m by (simp add: mps_disconnect_def working_kept Let_def split: option.splits)
  have e: "\<not> working (snd (easy_checkWorking False st))" by (rule released)
  show "\<not> working (snd (easy_disconnect env st))"
    using e by (simp add: easy_disconnect_def working_kept Let_def)
qed

text \<open>
  C1, as amended. The guard is the flag \<open>working\<close>. In both drivers a \<^verbatim>\<open>polling()\<close> or
  \<^verbatim>\<open>connect()\<close> call that arrives while the flag is set is refused at once:
  \<^verbatim>\<open>polling()\<close> returns, \<^verbatim>\<open>connect()\<close> rejects with \<^verbatim>\<open>busy\<close>, and the state after it is the
  state before it but for the counter of refusals (and, in EasyDrvClient, one warning in
  the log), so nothing is sent, resolved or cached. The first and the second refusal in
  a row only count up. The third emits the status \<^verbatim>\<open>connect-busy\<close> and sets the counter
  back to 0; the socket, \<open>connected\<close> and \<open>working\<close> stay as they are: the guard does not
  disconnect. An admitted call leaves the counter as it is and sets the flag, and the flag
  is clear again when the call is over, however it ends. \<^verbatim>\<open>disconnect()\<close> clears the flag
  too, at any time: the \<^verbatim>\<open>connect()\<close> call that follows it is admitted, also when an
  earlier call has not ended yet.
\<close>

theorem overload_guard:
  "(working st \<and> overloading_cnt st < 2 \<longrightarrow>
      mps_polling_begin c d ts st = (Refused, st\<lparr>overloading_cnt := overloading_cnt st + 1\<rparr>)
      \<and> mps_connect_begin st = (Some (Rejected ''busy''), st\<lparr>overloading_cnt := overloading_cnt st + 1\<rparr>)
      \<and> easy_polling_begin st =
           (Refused, st\<lparr>overloading_cnt := overloading_cnt st + 1,
                        logged := logged st @ [Warn ''working overload!'']\<rparr>)
      \<and> easy_connect_begin st =
           (Some (Rejected ''busy''), st\<lparr>overloading_cnt := overloading_cnt st + 1,
                                        logged := logged st @ [Warn ''working overload!'']\<rparr>))
   \<and> (working st \<and> overloading_cnt st = 2 \<longrightarrow>
      mps_polling_begin c d ts st =
        (Refused, st\<lparr>overloading_cnt := 0, lastStatus := ''connect-busy'',
                     events := events st @ [StatusChanged ''connect-busy''],
                     logged := logged st @ [Warn ''working overload! polling too fast'']\<rparr>)
      \<and> mps_connect_begin st =
        (Some (Rejected ''busy''),
         st\<lparr>overloading_cnt := 0, lastStatus := ''connect-busy'',
            events := events st @ [StatusChanged ''connect-busy''],
            logged := logged st @ [Warn ''working overload! polling too fast'']\<rparr>)
      \<and> easy_polling_begin st =
        (Refused, st\<lparr>overloading_cnt := 0, lastStatus := ''connect-busy'',
                     events := events st @ [StatusChanged ''connect-busy''],
                     logged := logged st @ [Warn ''working overload!'']\<rparr>)
      \<and> easy_connect_begin st =
        (Some (Rejected ''busy''),
         st\<lparr>overloading_cnt := 0, lastStatus := ''connect-busy'',
            events := events st @ [StatusChanged ''connect-busy''],
            logged := logged st @ [Warn ''working overload!'']\<rparr>))
   \<and> (\<not> working st \<longrightarrow>
      fst (mps_connect_begin st) = None \<and> working (snd (mps_connect_begin st))
      \<and> overloading_cnt (snd (mps_connect_begin st)) = overloading_cnt st
      \<and> fst (easy_connect_begin st) = None \<and> working (snd (easy_connect_begin st))
      \<and> overloading_cnt (snd (easy_connect_begin st)) = overloading_cnt st
      \<and> (fst (mps_polling_begin c d ts st) = Awaiting \<longrightarrow>
            snd (mps_polling_begin c d ts st) = st\<lparr>working := True\<rparr>)
      \<and> (fst (easy_polling_begin st) = Awaiting \<longrightarrow> snd (easy_polling_begin st) = st\<lparr>working := True\<rparr>))
   \<and> (fst (mps_polling_begin c d ts st) = Ended \<longrightarrow> \<not> working (snd (mps_polling_begin c d ts st)))
   \<and> (fst (easy_polling_begin st) = Ended \<longrightarrow> \<not> working (snd (easy_polling_begin st)))
   \<and> \<not> working (mps_polling_end c d ts net st)
   \<and> \<not> working (easy_polling_end ks c d ts states st)
   \<and> \<not> working (snd (mps_connect_end err st))
   \<and> \<not> working (snd (easy_connect_end ks err info_ok cstates st))
   \<and> \<not> working (snd (mps_disconnect env st))
   \<and> \<not> working (snd (easy_disconnect env st))
   \<and> fst (mps_connect_begin (snd (mps_disconnect env st))) = None
   \<and> fst (easy_connect_begin (snd (easy_disconnect env st))) = None"
proof -
  have a: "working st \<and> overloading_cnt st < 2 \<longrightarrow>
      mps_polling_begin c d ts st = (Refused, st\<lparr>overloading_cnt := overloading_cnt st + 1\<rparr>)
      \<and> mps_connect_begin st = (Some (Rejected ''busy''), st\<lparr>overloading_cnt := overloading_cnt st + 1\<rparr>)
      \<and> easy_polling_begin st =
           (Refused, st\<lparr>overloading_cnt := overloading_cnt st + 1,
                        logged := logged st @ [Warn ''working overload!'']\<rparr>)
      \<and> easy_connect_begin st =
           (Some (Rejected ''busy''), st\<lparr>overloading_cnt := overloading_cnt st + 1,
                                        logged := logged st @ [Warn ''working overload!'']\<rparr>)"
  proof (intro impI)
    assume h: "working st \<and> overloading_cnt st < 2"
    have m: "mps_checkWorking True st = (False, st\<lparr>overloading_cnt := overloading_cnt st + 1\<rparr>)"
      using h by (simp add: mps_refused_count)
    have e: "easy_checkWorking True st =
        (False, st\<lparr>overloading_cnt := overloading_cnt st + 1, logged := logged st @ [Warn ''working overload!'']\<rparr>)"
      using h by (simp add: easy_refused_count)
    show "mps_polling_begin c d ts st = (Refused, st\<lparr>overloading_cnt := overloading_cnt st + 1\<rparr>)
      \<and> mps_connect_begin st = (Some (Rejected ''busy''), st\<lparr>overloading_cnt := overloading_cnt st + 1\<rparr>)
      \<and> easy_polling_begin st =
           (Refused, st\<lparr>overloading_cnt := overloading_cnt st + 1,
                        logged := logged st @ [Warn ''working overload!'']\<rparr>)
      \<and> easy_connect_begin st =
           (Some (Rejected ''busy''), st\<lparr>overloading_cnt := overloading_cnt st + 1,
                                        logged := logged st @ [Warn ''working overload!'']\<rparr>)"
      using begin_refused(1) [OF m, of c d ts] begin_refused(2) [OF e] by simp
  qed
  have b: "working st \<and> overloading_cnt st = 2 \<longrightarrow>
      mps_polling_begin c d ts st =
        (Refused, st\<lparr>overloading_cnt := 0, lastStatus := ''connect-busy'',
                     events := events st @ [StatusChanged ''connect-busy''],
                     logged := logged st @ [Warn ''working overload! polling too fast'']\<rparr>)
      \<and> mps_connect_begin st =
        (Some (Rejected ''busy''),
         st\<lparr>overloading_cnt := 0, lastStatus := ''connect-busy'',
            events := events st @ [StatusChanged ''connect-busy''],
            logged := logged st @ [Warn ''working overload! polling too fast'']\<rparr>)
      \<and> easy_polling_begin st =
        (Refused, st\<lparr>overloading_cnt := 0, lastStatus := ''connect-busy'',
                     events := events st @ [StatusChanged ''connect-busy''],
                     logged := logged st @ [Warn ''working overload!'']\<rparr>)
      \<and> easy_connect_begin st =
        (Some (Rejected ''busy''),
         st\<lparr>overloading_cnt := 0, lastStatus := ''connect-busy'',
            events := events st @ [StatusChanged ''connect-busy''],
            logged := logged st @ [Warn ''working overload!'']\<rparr>)"
  proof (intro impI)
    assume h: "working st \<and> overloading_cnt st = 2"
    have m: "mps_checkWorking True st =
        (False, st\<lparr>overloading_cnt := 0, lastStatus := ''connect-busy'',
               events := events st @ [StatusChanged ''connect-busy''],
               logged := logged st @ [Warn ''working overload! polling too fast'']\<rparr>)"
      using h by (simp add: mps_refused_busy)
    have e: "easy_checkWorking True st =
        (False, st\<lparr>overloading_cnt := 0, lastStatus := ''connect-busy'',
               events := events st @ [StatusChanged ''connect-busy''],
               logged := logged st @ [Warn ''working overload!'']\<rparr>)"
      using h by (simp add: easy_refused_busy)
    show "mps_polling_begin c d ts st =
        (Refused, st\<lparr>overloading_cnt := 0, lastStatus := ''connect-busy'',
                     events := events st @ [StatusChanged ''connect-busy''],
                     logged := logged st @ [Warn ''working overload! polling too fast'']\<rparr>)
      \<and> mps_connect_begin st =
        (Some (Rejected ''busy''),
         st\<lparr>overloading_cnt := 0, lastStatus := ''connect-busy'',
            events := events st @ [StatusChanged ''connect-busy''],
            logged := logged st @ [Warn ''working overload! polling too fast'']\<rparr>)
      \<and> easy_polling_begin st =
        (Refused, st\<lparr>overloading_cnt := 0, lastStatus := ''connect-busy'',
                     events := events st @ [StatusChanged ''connect-busy''],
                     logged := logged st @ [Warn ''working overload!'']\<rparr>)
      \<and> easy_connect_begin st =
        (Some (Rejected ''busy''),
         st\<lparr>overloading_cnt := 0, lastStatus := ''connect-busy'',
            events := events st @ [StatusChanged ''connect-busy''],
            logged := logged st @ [Warn ''working overload!'']\<rparr>)"
      using begin_refused(1) [OF m, of c d ts] begin_refused(2) [OF e] by simp
  qed
  have cc: "\<not> working st \<longrightarrow>
      fst (mps_connect_begin st) = None \<and> working (snd (mps_connect_begin st))
      \<and> overloading_cnt (snd (mps_connect_begin st)) = overloading_cnt st
      \<and> fst (easy_connect_begin st) = None \<and> working (snd (easy_connect_begin st))
      \<and> overloading_cnt (snd (easy_connect_begin st)) = overloading_cnt st
      \<and> (fst (mps_polling_begin c d ts st) = Awaiting \<longrightarrow>
            snd (mps_polling_begin c d ts st) = st\<lparr>working := True\<rparr>)
      \<and> (fst (easy_polling_begin st) = Awaiting \<longrightarrow> snd (easy_polling_begin st) = st\<lparr>working := True\<rparr>)"
    using connect_admitted [of st] polling_admitted(1) [of st c d ts] polling_admitted(2) [of st]
    by simp
  have dd: "(fst (mps_polling_begin c d ts st) = Ended \<longrightarrow> \<not> working (snd (mps_polling_begin c d ts st)))
      \<and> (fst (easy_polling_begin st) = Ended \<longrightarrow> \<not> working (snd (easy_polling_begin st)))"
    using mps_early_end [of c d ts st] easy_early_end [of st] by simp
  have ee: "\<not> working (mps_polling_end c d ts net st)
      \<and> \<not> working (easy_polling_end ks c d ts states st)
      \<and> \<not> working (snd (mps_connect_end err st))
      \<and> \<not> working (snd (easy_connect_end ks err info_ok cstates st))"
    by (simp add: mps_call_over easy_call_over)
  have ff: "\<not> working (snd (mps_disconnect env st)) \<and> \<not> working (snd (easy_disconnect env st))"
    by (simp add: disconnect_releases)
  have gg: "fst (mps_connect_begin (snd (mps_disconnect env st))) = None
      \<and> fst (easy_connect_begin (snd (easy_disconnect env st))) = None"
    using connect_admitted(1) [OF disconnect_releases(1), of env st]
      connect_admitted(2) [OF disconnect_releases(2), of env st] by simp
  show ?thesis
    by (intro conjI) (use a b cc dd ee ff gg in simp_all)
qed

text \<open>
  The witness: the MPS driver with a tag of \<^verbatim>\<open>Dev\<close> is connected, a \<^verbatim>\<open>polling()\<close> call
  is admitted and waits for the answer of the device, and three more \<^verbatim>\<open>polling()\<close>
  calls arrive. A \<^verbatim>\<open>polling()\<close> call on a driver that has never connected ends at once
  and leaves the flag clear.
\<close>

theorem overload_guard_witness:
  "fst (mps_polling_begin passOn (\<lambda>s n. False) 7 mps_connected) = Awaiting
   \<and> working mps_in_flight \<and> overloading_cnt mps_in_flight < 2
   \<and> mps_polling_begin passOn (\<lambda>s n. False) 7 mps_in_flight
       = (Refused, mps_in_flight\<lparr>overloading_cnt := 1\<rparr>)
   \<and> working (mps_poll_again mps_in_flight) \<and> overloading_cnt (mps_poll_again mps_in_flight) < 2
   \<and> mps_polling_begin passOn (\<lambda>s n. False) 7 (mps_poll_again mps_in_flight)
       = (Refused, mps_in_flight\<lparr>overloading_cnt := 2\<rparr>)
   \<and> working (mps_poll_again (mps_poll_again mps_in_flight))
   \<and> overloading_cnt (mps_poll_again (mps_poll_again mps_in_flight)) = 2
   \<and> mps_polling_begin passOn (\<lambda>s n. False) 7 (mps_poll_again (mps_poll_again mps_in_flight)) =
        (Refused, mps_in_flight\<lparr>overloading_cnt := 0, lastStatus := ''connect-busy'',
            events := events mps_in_flight @ [StatusChanged ''connect-busy''],
            logged := logged mps_in_flight @ [Warn ''working overload! polling too fast'']\<rparr>)
   \<and> \<not> working mps_connected
   \<and> mps_in_flight = mps_connected\<lparr>working := True\<rparr>
   \<and> fst (mps_polling_begin passOn (\<lambda>s n. False) 7 (newDriver [])) = Ended
   \<and> \<not> working (snd (mps_polling_begin passOn (\<lambda>s n. False) 7 (newDriver [])))"
proof -
  have dn: "deviceNames [(''id1'', tagAt ''Dev.u1.State'')] = [''Dev'']"
    by (simp add: deviceNames_def forIn_def tagAt_def tagAddr_def arrayIndex_def isDigit_def)
  have f: "fst (mps_polling_begin passOn (\<lambda>s n. False) 7 mps_connected) = Awaiting"
    by (simp add: mps_connected_def mps_polling_begin_def mps_connect_end_def mps_connect_begin_def
        mps_checkWorking_def emitStatus_def newDriver_def Let_def dn)
  have w: "working mps_in_flight \<and> overloading_cnt mps_in_flight = 0"
    by (simp add: mps_in_flight_def mps_connected_def mps_polling_begin_def mps_connect_end_def
        mps_connect_begin_def mps_checkWorking_def emitStatus_def newDriver_def Let_def dn)
  have r1: "mps_polling_begin passOn (\<lambda>s n. False) 7 mps_in_flight
      = (Refused, mps_in_flight\<lparr>overloading_cnt := 1\<rparr>)"
    using overload_guard [of mps_in_flight passOn "\<lambda>s n. False" 7] w by simp
  then have s1: "mps_poll_again mps_in_flight = mps_in_flight\<lparr>overloading_cnt := 1\<rparr>"
    by (simp add: mps_poll_again_def)
  have w1: "working (mps_poll_again mps_in_flight) \<and> overloading_cnt (mps_poll_again mps_in_flight) < 2"
    using w s1 by simp
  have r2: "mps_polling_begin passOn (\<lambda>s n. False) 7 (mps_poll_again mps_in_flight)
      = (Refused, mps_in_flight\<lparr>overloading_cnt := 2\<rparr>)"
    using overload_guard [of "mps_poll_again mps_in_flight" passOn "\<lambda>s n. False" 7] w1 s1 by simp
  then have s2: "mps_poll_again (mps_poll_again mps_in_flight) = mps_in_flight\<lparr>overloading_cnt := 2\<rparr>"
    by (simp add: mps_poll_again_def)
  have w2: "working (mps_poll_again (mps_poll_again mps_in_flight))
      \<and> overloading_cnt (mps_poll_again (mps_poll_again mps_in_flight)) = 2"
    using w s2 by simp
  have r3: "mps_polling_begin passOn (\<lambda>s n. False) 7 (mps_poll_again (mps_poll_again mps_in_flight)) =
        (Refused, mps_in_flight\<lparr>overloading_cnt := 0, lastStatus := ''connect-busy'',
            events := events mps_in_flight @ [StatusChanged ''connect-busy''],
            logged := logged mps_in_flight @ [Warn ''working overload! polling too fast'']\<rparr>)"
    using overload_guard [of "mps_poll_again (mps_poll_again mps_in_flight)" passOn "\<lambda>s n. False" 7]
      w2 s2 by simp
  have nw: "\<not> working mps_connected"
    by (simp add: mps_connected_def mps_connect_end_def mps_connect_begin_def
        mps_checkWorking_def emitStatus_def newDriver_def Let_def)
  have adm: "mps_in_flight = mps_connected\<lparr>working := True\<rparr>"
    using overload_guard [of mps_connected passOn "\<lambda>s n. False" 7] nw f
    by (simp add: mps_in_flight_def)
  have en: "fst (mps_polling_begin passOn (\<lambda>s n. False) 7 (newDriver [])) = Ended"
    by (simp add: mps_polling_begin_def mps_checkWorking_def newDriver_def Let_def)
  have cl: "\<not> working (snd (mps_polling_begin passOn (\<lambda>s n. False) 7 (newDriver [])))"
    using overload_guard [of "newDriver []" passOn "\<lambda>s n. False" 7] en by simp
  show ?thesis using f w r1 w1 r2 w2 r3 nw adm en cl by simp
qed

text \<open>
  C1 as stated fails twice. The MPS driver has a \<^verbatim>\<open>polling()\<close> call waiting for the
  answer of its device and three more arrive; an EasyDrv driver has a \<^verbatim>\<open>connect()\<close>
  call waiting for the TCP connection and three more arrive. After the third refusal the
  status is \<^verbatim>\<open>connect-busy\<close>, and the driver still has its socket, still counts as
  connected (MPS) and still has the first call in flight; no \<^verbatim>\<open>connect-off\<close> has been
  emitted: nothing was disconnected. And with the \<^verbatim>\<open>connect()\<close> call still waiting,
  \<^verbatim>\<open>disconnect()\<close> and then \<^verbatim>\<open>connect()\<close> are called: the second \<^verbatim>\<open>connect()\<close> is not
  rejected, it opens a socket of its own.
\<close>

theorem overload_guard_counterexample:
  "fst (mps_polling_begin passOn (\<lambda>s n. False) 7 mps_connected) = Awaiting
   \<and> lastStatus (mps_poll_again (mps_poll_again (mps_poll_again mps_in_flight))) = ''connect-busy''
   \<and> socket (mps_poll_again (mps_poll_again (mps_poll_again mps_in_flight))) \<noteq> None
   \<and> connected_flag (mps_poll_again (mps_poll_again (mps_poll_again mps_in_flight)))
   \<and> working (mps_poll_again (mps_poll_again (mps_poll_again mps_in_flight)))
   \<and> StatusChanged ''connect-off''
        \<notin> set (events (mps_poll_again (mps_poll_again (mps_poll_again mps_in_flight))))
   \<and> fst (easy_connect_begin (newDriver [])) = None
   \<and> lastStatus (easy_connect_again (easy_connect_again (easy_connect_again easy_connecting)))
        = ''connect-busy''
   \<and> socket (easy_connect_again (easy_connect_again (easy_connect_again easy_connecting))) \<noteq> None
   \<and> working (easy_connect_again (easy_connect_again (easy_connect_again easy_connecting)))
   \<and> StatusChanged ''connect-off''
        \<notin> set (events (easy_connect_again (easy_connect_again (easy_connect_again easy_connecting))))
   \<and> fst (easy_connect_begin (snd (easy_disconnect quietSocket easy_connecting))) = None
   \<and> socket (snd (easy_connect_begin (snd (easy_disconnect quietSocket easy_connecting)))) \<noteq> None
   \<and> fst (mps_connect_begin
            (snd (mps_disconnect quietSocket (snd (mps_connect_begin (newDriver [])))))) = None
   \<and> socket (snd (mps_connect_begin
            (snd (mps_disconnect quietSocket (snd (mps_connect_begin (newDriver []))))))) \<noteq> None"
proof -
  have dn: "deviceNames [(''id1'', tagAt ''Dev.u1.State'')] = [''Dev'']"
    by (simp add: deviceNames_def forIn_def tagAt_def tagAddr_def arrayIndex_def isDigit_def)
  show ?thesis
    by (simp add: mps_poll_again_def mps_in_flight_def mps_connected_def easy_connect_again_def
        easy_connecting_def mps_polling_begin_def mps_connect_end_def mps_connect_begin_def
        mps_checkWorking_def easy_connect_begin_def easy_checkWorking_def emitStatus_def
        mps_disconnect_def easy_disconnect_def clearVarsValue_def emitValues_def quietSocket_def
        newDriver_def Let_def dn)
qed

section \<open>Claims about the polling cycle\<close>

lemma clean_update:
  "cacheClean vv \<Longrightarrow> \<not> s_changed v \<Longrightarrow> cacheClean (AList.update k v vv)"
  by (induction vv) (auto simp add: cacheClean_def)

lemma tagStep_clean:
  assumes "cacheClean (varsValue (fst acc))" "cacheClean (snd acc)"
  shows "cacheClean (varsValue (fst (tagStep resolve compose daqToSave ts acc idtag)))
       \<and> cacheClean (snd (tagStep resolve compose daqToSave ts acc idtag))"
  using assms
  by (auto simp add: tagStep_def Let_def clean_update split: sum.splits option.splits)

lemma tagStep_keeps:
  "events (fst (tagStep resolve compose daqToSave ts acc idtag)) = events (fst acc)
   \<and> lastStatus (fst (tagStep resolve compose daqToSave ts acc idtag)) = lastStatus (fst acc)
   \<and> addDaq (fst (tagStep resolve compose daqToSave ts acc idtag)) = addDaq (fst acc)
   \<and> daqCalls (fst (tagStep resolve compose daqToSave ts acc idtag)) = daqCalls (fst acc)
   \<and> luaState (fst (tagStep resolve compose daqToSave ts acc idtag)) = luaState (fst acc)
   \<and> deviceStates (fst (tagStep resolve compose daqToSave ts acc idtag)) = deviceStates (fst acc)"
  by (auto simp add: tagStep_def Let_def split: sum.splits option.splits)

lemma tagLoop_clean:
  "cacheClean (varsValue (fst acc)) \<Longrightarrow> cacheClean (snd acc) \<Longrightarrow>
   cacheClean (varsValue (fst (tagLoop resolve compose daqToSave ts acc tgs)))
   \<and> cacheClean (snd (tagLoop resolve compose daqToSave ts acc tgs))"
proof (induction tgs arbitrary: acc)
  case Nil
  then show ?case by (simp add: tagLoop_def)
next
  case (Cons x xs)
  have "tagLoop resolve compose daqToSave ts acc (x # xs)
      = tagLoop resolve compose daqToSave ts (tagStep resolve compose daqToSave ts acc x) xs"
    by (simp add: tagLoop_def)
  then show ?case
    using Cons.IH [of "tagStep resolve compose daqToSave ts acc x"]
      tagStep_clean [OF Cons.prems, of resolve compose daqToSave ts x]
    by simp
qed

lemma tagLoop_keeps:
  "events (fst (tagLoop resolve compose daqToSave ts acc tgs)) = events (fst acc)
   \<and> lastStatus (fst (tagLoop resolve compose daqToSave ts acc tgs)) = lastStatus (fst acc)
   \<and> addDaq (fst (tagLoop resolve compose daqToSave ts acc tgs)) = addDaq (fst acc)
   \<and> daqCalls (fst (tagLoop resolve compose daqToSave ts acc tgs)) = daqCalls (fst acc)
   \<and> luaState (fst (tagLoop resolve compose daqToSave ts acc tgs)) = luaState (fst acc)
   \<and> deviceStates (fst (tagLoop resolve compose daqToSave ts acc tgs)) = deviceStates (fst acc)"
proof (induction tgs arbitrary: acc)
  case Nil
  then show ?case by (simp add: tagLoop_def)
next
  case (Cons x xs)
  have "tagLoop resolve compose daqToSave ts acc (x # xs)
      = tagLoop resolve compose daqToSave ts (tagStep resolve compose daqToSave ts acc x) xs"
    by (simp add: tagLoop_def)
  then show ?case
    using Cons.IH [of "tagStep resolve compose daqToSave ts acc x"]
      tagStep_keeps [of resolve compose daqToSave ts acc x]
    by simp
qed

text \<open>what a cycle does to cache and events\<close>
lemma pollingCycle_effect:
  "varsValue (pollingCycle resolve compose daqToSave ts st)
     = varsValue (fst (tagLoop resolve compose daqToSave ts (st, []) (data_tags st)))
   \<and> events (pollingCycle resolve compose daqToSave ts st)
     = events st @ [ValueChanged (varsValue (pollingCycle resolve compose daqToSave ts st))]
         @ (if lastStatus st \<noteq> ''connect-ok'' then [StatusChanged ''connect-ok''] else [])
   \<and> daqCalls (pollingCycle resolve compose daqToSave ts st)
     = daqCalls st @ (if addDaq st \<and> snd (tagLoop resolve compose daqToSave ts (st, []) (data_tags st)) \<noteq> []
                      then [snd (tagLoop resolve compose daqToSave ts (st, []) (data_tags st))] else [])"
  using tagLoop_keeps [of resolve compose daqToSave ts "(st, [])" "data_tags st"]
  by (simp add: pollingCycle_def afterLoop_def Let_def emitValues_def emitStatus_def)

lemma changedHidden_emitStatus: "changedHidden st \<Longrightarrow> changedHidden (emitStatus s st)"
  by (simp add: changedHidden_def emitStatus_def)

lemma changedHidden_emitValues:
  "changedHidden st \<Longrightarrow> cacheClean vv \<Longrightarrow> changedHidden (emitValues vv st)"
  by (simp add: changedHidden_def emitValues_def)

lemma cacheClean_cleared:
  "cacheClean vv \<Longrightarrow> cacheClean (map (\<lambda>e. (fst e, (snd e)\<lparr>s_value := JNull\<rparr>)) vv)"
  by (induction vv) (simp_all add: cacheClean_def)

lemma changedHidden_clear: "changedHidden st \<Longrightarrow> changedHidden (clearVarsValue st)"
  by (simp add: changedHidden_def clearVarsValue_def emitValues_def Let_def cacheClean_cleared)

lemma changedHidden_mps_checkWorking: "changedHidden st \<Longrightarrow> changedHidden (snd (mps_checkWorking flag st))"
  by (simp add: changedHidden_def mps_checkWorking_def emitStatus_def Let_def)

lemma changedHidden_easy_checkWorking: "changedHidden st \<Longrightarrow> changedHidden (snd (easy_checkWorking flag st))"
  by (simp add: changedHidden_def easy_checkWorking_def emitStatus_def Let_def)

lemma changedHidden_catch: "changedHidden st \<Longrightarrow> changedHidden (pollingCatch st)"
  by (simp add: changedHidden_def pollingCatch_def emitStatus_def Let_def)

lemma changedHidden_getPACStates_end: "changedHidden st \<Longrightarrow> changedHidden (snd (getPACStates_end ks answer st))"
  by (simp add: changedHidden_def getPACStates_end_def extractLuaState_def
      split: option.splits js.splits)

lemma changedHidden_cycle:
  assumes "changedHidden st"
  shows "changedHidden (pollingCycle resolve compose daqToSave ts st)"
proof -
  have c: "cacheClean (varsValue (fst (tagLoop resolve compose daqToSave ts (st, []) (data_tags st))))"
    using tagLoop_clean [of "(st, [])" resolve compose daqToSave ts "data_tags st"] assms
    by (simp add: changedHidden_def cacheClean_def)
  then show ?thesis
    using pollingCycle_effect [of resolve compose daqToSave ts st] assms
    by (simp add: changedHidden_def)
qed

lemma changedHidden_easy_polling:
  assumes "changedHidden st"
  shows "changedHidden (easy_polling ks compose daqToSave ts states st)"
proof -
  have b: "changedHidden (snd (easy_polling_begin st))"
    using assms changedHidden_easy_checkWorking
    by (simp add: easy_polling_begin_def split: prod.splits bool.splits) (metis snd_conv)
  have e: "\<And>s. changedHidden s \<Longrightarrow> changedHidden (easy_polling_end ks compose daqToSave ts states s)"
    using changedHidden_easy_checkWorking changedHidden_catch changedHidden_cycle
      changedHidden_getPACStates_end
    by (simp add: easy_polling_end_def split: outcome.splits prod.splits bool.splits) (metis snd_conv)
  show ?thesis
    using b e by (simp add: easy_polling_def split: prod.splits progress.splits) (metis snd_conv)
qed

lemma changedHidden_queryAll:
  "changedHidden (snd acc) \<Longrightarrow> changedHidden (snd (queryAll net acc dn))"
  by (simp add: queryAll_def changedHidden_def split: outcome.splits)

lemma changedHidden_queries:
  "changedHidden (snd acc) \<Longrightarrow> changedHidden (snd (foldl (queryAll net) acc names))"
proof (induction names arbitrary: acc)
  case Nil
  then show ?case by simp
next
  case (Cons n ns)
  then show ?case using changedHidden_queryAll [of acc net n] by simp
qed

lemma changedHidden_mps_polling:
  assumes "changedHidden st"
  shows "changedHidden (mps_polling compose daqToSave ts net st)"
proof -
  have b: "changedHidden (snd (mps_polling_begin compose daqToSave ts st))"
  proof (cases "mps_checkWorking True st")
    case (Pair ok st1)
    have h1: "changedHidden st1"
      using changedHidden_mps_checkWorking [OF assms, of True] Pair by simp
    have h2: "changedHidden (snd (mps_checkWorking False (snd (mps_checkWorking False st1))))"
      by (intro changedHidden_mps_checkWorking h1)
    have h3: "changedHidden (snd (mps_checkWorking False
                (pollingCycle mps_resolveTagValue compose daqToSave ts st1)))"
      by (intro changedHidden_mps_checkWorking changedHidden_cycle h1)
    show ?thesis
      using Pair h1 h2 h3 by (cases ok) (simp_all add: mps_polling_begin_def)
  qed
  have e: "changedHidden (mps_polling_end compose daqToSave ts net s)" if s: "changedHidden s" for s
  proof -
    let ?q = "foldl (queryAll net) (0, s) (deviceNames (data_tags s))"
    have q: "changedHidden (snd ?q)"
      using changedHidden_queries [of "(0, s)" net "deviceNames (data_tags s)"] s by simp
    then have "changedHidden (if fst ?q > 0 then (snd ?q)\<lparr>logged := logged (snd ?q) @ [Warn ''QueryAll failed'']\<rparr>
                 else snd ?q)"
      by (simp add: changedHidden_def)
    then show ?thesis
      using changedHidden_cycle changedHidden_mps_checkWorking
      by (simp add: mps_polling_end_def Let_def)
  qed
  show ?thesis
    using b e by (simp add: mps_polling_def split: prod.splits progress.splits) (metis snd_conv)
qed

lemma changedHidden_connect:
  assumes "changedHidden st"
  shows "changedHidden (snd (mps_connect_begin st))"
    and "changedHidden (snd (mps_connect_end err st))"
    and "changedHidden (snd (easy_connect_begin st))"
    and "changedHidden (snd (easy_connect_end ks err info_ok states st))"
proof -
  show "changedHidden (snd (mps_connect_begin st))"
    using assms
    by (simp add: changedHidden_def mps_connect_begin_def mps_checkWorking_def emitStatus_def Let_def)
  show "changedHidden (snd (easy_connect_begin st))"
    using assms
    by (simp add: changedHidden_def easy_connect_begin_def easy_checkWorking_def emitStatus_def Let_def)
  show "changedHidden (snd (mps_connect_end err st))"
    using assms
    by (cases err)
      (simp_all add: changedHidden_def mps_connect_end_def mps_checkWorking_def emitStatus_def
        clearVarsValue_def emitValues_def cacheClean_cleared Let_def)
  show "changedHidden (snd (easy_connect_end ks err info_ok states st))"
    using assms
    by (cases err; cases states)
      (simp_all add: changedHidden_def easy_connect_end_def easy_checkWorking_def emitStatus_def
        clearVarsValue_def emitValues_def cacheClean_cleared getPACStates_end_def
        extractLuaState_def Let_def split: option.splits js.splits)
qed

lemma changedHidden_disconnect:
  assumes "changedHidden st"
  shows "changedHidden (snd (mps_disconnect env st))"
    and "changedHidden (snd (easy_disconnect env st))"
  using assms
  by (simp_all add: changedHidden_def mps_disconnect_def easy_disconnect_def mps_checkWorking_def
      easy_checkWorking_def emitStatus_def clearVarsValue_def emitValues_def cacheClean_cleared
      Let_def split: option.splits)

lemma changedHidden_load: "changedHidden st \<Longrightarrow> changedHidden (load tgs st)"
  by (simp add: changedHidden_def load_def cacheClean_def)

text \<open>
  C10. \<open>changedHidden\<close> holds for a new driver and is kept by every call of the driver
  interface that writes state: \<^verbatim>\<open>polling()\<close> (whether refused, ended early, failed or
  completed), \<^verbatim>\<open>connect()\<close>, \<^verbatim>\<open>disconnect()\<close> and \<^verbatim>\<open>load()\<close>. So after every polling
  cycle no sample of the cache has \<^verbatim>\<open>changed\<close> set, no value event that was ever emitted
  carried a sample with \<^verbatim>\<open>changed\<close> set, and \<^verbatim>\<open>getValues()\<close> returns such a cache. The
  flag is computed in the loop body, handed to the DAQ check inside the sample, and
  stored as false.
\<close>

theorem changed_flag_never_exposed:
  "changedHidden (newDriver tgs)
   \<and> (changedHidden st \<longrightarrow>
        changedHidden (easy_polling ks compose daqToSave ts states st)
        \<and> changedHidden (mps_polling compose daqToSave ts net st)
        \<and> changedHidden (snd (easy_connect_begin st))
        \<and> changedHidden (snd (easy_connect_end ks err info_ok cstates st))
        \<and> changedHidden (snd (mps_connect_begin st))
        \<and> changedHidden (snd (mps_connect_end err st))
        \<and> changedHidden (snd (easy_disconnect env st))
        \<and> changedHidden (snd (mps_disconnect env st))
        \<and> changedHidden (load tgs st)
        \<and> cacheClean (getValues st))
   \<and> events (pollingCycle resolve compose daqToSave ts st)
        = events st @ [ValueChanged (varsValue (pollingCycle resolve compose daqToSave ts st))]
            @ (if lastStatus st \<noteq> ''connect-ok'' then [StatusChanged ''connect-ok''] else [])"
proof -
  have i: "changedHidden (newDriver tgs)"
    by (simp add: changedHidden_def newDriver_def cacheClean_def)
  have k: "changedHidden st \<longrightarrow>
        changedHidden (easy_polling ks compose daqToSave ts states st)
        \<and> changedHidden (mps_polling compose daqToSave ts net st)
        \<and> changedHidden (snd (easy_connect_begin st))
        \<and> changedHidden (snd (easy_connect_end ks err info_ok cstates st))
        \<and> changedHidden (snd (mps_connect_begin st))
        \<and> changedHidden (snd (mps_connect_end err st))
        \<and> changedHidden (snd (easy_disconnect env st))
        \<and> changedHidden (snd (mps_disconnect env st))
        \<and> changedHidden (load tgs st)
        \<and> cacheClean (getValues st)"
  proof (intro impI conjI)
    assume h: "changedHidden st"
    show "changedHidden (easy_polling ks compose daqToSave ts states st)"
      by (rule changedHidden_easy_polling [OF h])
    show "changedHidden (mps_polling compose daqToSave ts net st)"
      by (rule changedHidden_mps_polling [OF h])
    show "changedHidden (snd (easy_connect_begin st))"
      by (rule changedHidden_connect(3) [OF h])
    show "changedHidden (snd (easy_connect_end ks err info_ok cstates st))"
      by (rule changedHidden_connect(4) [OF h])
    show "changedHidden (snd (mps_connect_begin st))"
      by (rule changedHidden_connect(1) [OF h])
    show "changedHidden (snd (mps_connect_end err st))"
      by (rule changedHidden_connect(2) [OF h])
    show "changedHidden (snd (easy_disconnect env st))"
      by (rule changedHidden_disconnect(2) [OF h])
    show "changedHidden (snd (mps_disconnect env st))"
      by (rule changedHidden_disconnect(1) [OF h])
    show "changedHidden (load tgs st)"
      by (rule changedHidden_load [OF h])
    show "cacheClean (getValues st)"
      using h by (simp add: changedHidden_def getValues_def)
  qed
  show ?thesis
    using i k pollingCycle_effect [of resolve compose daqToSave ts st]
    by blast
qed

lemma mps_resolve_cong:
  assumes "deviceStates s = deviceStates s'"
  shows "mps_resolveTagValue s tg = mps_resolveTagValue s' tg"
  unfolding mps_resolveTagValue_def using assms by (simp only:)

lemma easy_resolve_cong:
  assumes "luaState s = luaState s'"
  shows "easy_resolveTagValue s tg = easy_resolveTagValue s' tg"
  unfolding easy_resolveTagValue_def using assms by (simp only:)

lemma readsStates_easy: "readsStates easy_resolveTagValue"
  unfolding readsStates_def using easy_resolve_cong by blast

lemma readsStates_mps: "readsStates mps_resolveTagValue"
  unfolding readsStates_def using mps_resolve_cong by blast

lemma readsStatesD:
  "readsStates R \<Longrightarrow> luaState s = luaState s' \<Longrightarrow> deviceStates s = deviceStates s'
     \<Longrightarrow> R s tg = R s' tg"
  unfolding readsStates_def by blast

lemma readsStates_upd:
  assumes R: "readsStates R"
  shows "R (s\<lparr>logged := l, data_tags := t\<rparr>) tg = R s tg"
  by (rule readsStatesD [OF R]) simp_all

lemma outcome_repr: "outcome a = outcome b \<Longrightarrow> a = b\<lparr>logged := logged a, data_tags := data_tags a\<rparr>"
  by (cases a; cases b) (simp add: outcome_def)

lemma outcome_upd [simp]: "outcome (s\<lparr>logged := l, data_tags := t\<rparr>) = outcome s"
  by (simp add: outcome_def)

lemma outcome_upd1 [simp]: "outcome (s\<lparr>logged := l\<rparr>) = outcome s"
  by (simp add: outcome_def)

lemma tagStep_outcome:
  assumes R: "readsStates R"
  shows "outcome (fst (tagStep R c d ts (s\<lparr>logged := l, data_tags := t\<rparr>, ch) x))
           = outcome (fst (tagStep R c d ts (s, ch) x))
       \<and> snd (tagStep R c d ts (s\<lparr>logged := l, data_tags := t\<rparr>, ch) x) = snd (tagStep R c d ts (s, ch) x)"
proof -
  have r: "R (s\<lparr>logged := l, data_tags := t\<rparr>) (snd x) = R s (snd x)"
    by (rule readsStates_upd [OF R])
  show ?thesis
    by (simp add: tagStep_def Let_def r outcome_def split: sum.splits option.splits)
qed

lemma tagStep_outcome':
  assumes R: "readsStates R" and o: "outcome a = outcome b"
  shows "outcome (fst (tagStep R c d ts (a, ch) x)) = outcome (fst (tagStep R c d ts (b, ch) x))
       \<and> snd (tagStep R c d ts (a, ch) x) = snd (tagStep R c d ts (b, ch) x)"
  using tagStep_outcome [OF R, where s = b and l = "logged a" and t = "data_tags a"
      and c = c and d = d and ts = ts and ch = ch and x = x] outcome_repr [OF o]
  by simp

lemma tagLoop_outcome:
  assumes R: "readsStates R"
  shows "outcome (fst acc) = outcome (fst acc') \<Longrightarrow> snd acc = snd acc' \<Longrightarrow>
     outcome (fst (tagLoop R c d ts acc tgs)) = outcome (fst (tagLoop R c d ts acc' tgs))
       \<and> snd (tagLoop R c d ts acc tgs) = snd (tagLoop R c d ts acc' tgs)"
proof (induction tgs arbitrary: acc acc')
  case Nil
  then show ?case by (simp add: tagLoop_def)
next
  case (Cons x xs)
  have s: "\<And>a. tagLoop R c d ts a (x # xs) = tagLoop R c d ts (tagStep R c d ts a x) xs"
    by (simp add: tagLoop_def)
  have "outcome (fst (tagStep R c d ts acc x)) = outcome (fst (tagStep R c d ts acc' x))
       \<and> snd (tagStep R c d ts acc x) = snd (tagStep R c d ts acc' x)"
    using tagStep_outcome' [OF R, of "fst acc" "fst acc'" c d ts "snd acc" x] Cons.prems
    by (cases acc; cases acc') simp
  then show ?case
    using Cons.IH [of "tagStep R c d ts acc x" "tagStep R c d ts acc' x"] s by simp
qed

lemma tagStep_fails:
  assumes "tagFails R c s tid tg"
  shows "tagStep R c d ts (s, ch) (tid, tg)
     = (s\<lparr>logged := logged s @ [Err (''read tag '' @ t_name tg @ '' error'')]\<rparr>, ch)"
  using assms by (auto simp add: tagFails_def tagStep_def Let_def split: sum.splits option.splits)

lemma tagStep_other:
  "tid \<noteq> fst x \<Longrightarrow>
   map_of (varsValue (fst (tagStep R c d ts acc x))) tid = map_of (varsValue (fst acc)) tid"
  by (auto simp add: tagStep_def Let_def update_conv' split: sum.splits option.splits)

lemma tagLoop_other:
  "tid \<notin> fst ` set tgs \<Longrightarrow>
   map_of (varsValue (fst (tagLoop R c d ts acc tgs))) tid = map_of (varsValue (fst acc)) tid"
proof (induction tgs arbitrary: acc)
  case Nil
  then show ?case by (simp add: tagLoop_def)
next
  case (Cons x xs)
  have s: "tagLoop R c d ts acc (x # xs) = tagLoop R c d ts (tagStep R c d ts acc x) xs"
    by (simp add: tagLoop_def)
  show ?case
    using Cons.IH [of "tagStep R c d ts acc x"] Cons.prems tagStep_other [of tid x R c d ts acc] s
    by simp
qed

lemma tagStep_log:
  "logged (fst (tagStep R c d ts acc x)) = logged (fst acc)
   \<or> logged (fst (tagStep R c d ts acc x))
       = logged (fst acc) @ [Err (''read tag '' @ t_name (snd x) @ '' error'')]"
  by (simp add: tagStep_def Let_def split: sum.splits option.splits)

lemma tagStep_states:
  "luaState (fst (tagStep R c d ts acc x)) = luaState (fst acc)
      \<and> deviceStates (fst (tagStep R c d ts acc x)) = deviceStates (fst acc)"
  by (simp add: tagStep_def Let_def split: sum.splits option.splits)

lemma tagLoop_log:
  "\<exists>l. logged (fst (tagLoop R c d ts acc tgs)) = logged (fst acc) @ l"
proof (induction tgs arbitrary: acc)
  case Nil
  then show ?case by (simp add: tagLoop_def)
next
  case (Cons x xs)
  have s: "tagLoop R c d ts acc (x # xs) = tagLoop R c d ts (tagStep R c d ts acc x) xs"
    by (simp add: tagLoop_def)
  obtain l1 where l1: "logged (fst (tagStep R c d ts acc x)) = logged (fst acc) @ l1"
    using tagStep_log [of R c d ts acc x] append_Nil2 [of "logged (fst acc)"] by metis
  obtain l2 where "logged (fst (tagLoop R c d ts (tagStep R c d ts acc x) xs))
      = logged (fst (tagStep R c d ts acc x)) @ l2"
    using Cons.IH by blast
  then show ?case using s l1 by simp
qed

lemma tagLoop_append:
  "tagLoop R c d ts acc (xs @ ys) = tagLoop R c d ts (tagLoop R c d ts acc xs) ys"
  by (simp add: tagLoop_def)

lemma tagLoop_states:
  "luaState (fst (tagLoop R c d ts acc tgs)) = luaState (fst acc)
   \<and> deviceStates (fst (tagLoop R c d ts acc tgs)) = deviceStates (fst acc)"
proof (induction tgs arbitrary: acc)
  case Nil
  then show ?case by (simp add: tagLoop_def)
next
  case (Cons x xs)
  have s: "tagLoop R c d ts acc (x # xs) = tagLoop R c d ts (tagStep R c d ts acc x) xs"
    by (simp add: tagLoop_def)
  show ?case
    using Cons.IH [of "tagStep R c d ts acc x"] s tagStep_states [of R c d ts acc x] by simp
qed

lemma tagFails_cong:
  assumes "readsStates R" "luaState s = luaState s'" "deviceStates s = deviceStates s'"
    "map_of (varsValue s) tid = map_of (varsValue s') tid"
  shows "tagFails R c s tid tg = tagFails R c s' tid tg"
proof -
  have e: "R s tg = R s' tg" by (rule readsStatesD [OF assms(1-3)])
  show ?thesis unfolding tagFails_def by (simp only: e assms(4))
qed

lemma afterLoop_outcome:
  assumes "outcome (fst r) = outcome (fst r')" "snd r = snd r'"
  shows "outcome (afterLoop ts r) = outcome (afterLoop ts r')"
proof -
  have "fst r = (fst r')\<lparr>logged := logged (fst r), data_tags := data_tags (fst r)\<rparr>"
    by (rule outcome_repr [OF assms(1)])
  then obtain l t where e: "fst r = (fst r')\<lparr>logged := l, data_tags := t\<rparr>" by blast
  show ?thesis
    using assms(2)
    by (simp add: afterLoop_def e Let_def emitValues_def emitStatus_def outcome_def)
qed

lemma afterLoop_logged: "logged (afterLoop ts r) = logged (fst r)"
  by (simp add: afterLoop_def Let_def emitValues_def emitStatus_def)

lemma cycle_without_failing_tag:
  assumes R: "readsStates R"
    and tags: "data_tags st = tgs1 @ (tid, tg) # tgs2"
    and dist: "tid \<notin> fst ` set tgs1"
    and f: "tagFails R c st tid tg"
  shows "outcome (pollingCycle R c d ts st) = outcome (pollingCycle R c d ts (st\<lparr>data_tags := tgs1 @ tgs2\<rparr>))"
    and "Err (''read tag '' @ t_name tg @ '' error'') \<in> set (logged (pollingCycle R c d ts st))"
proof -
  let ?r1 = "tagLoop R c d ts (st, []) tgs1"
  let ?e = "Err (''read tag '' @ t_name tg @ '' error'')"
  let ?st' = "st\<lparr>data_tags := tgs1 @ tgs2\<rparr>"
  have f1: "tagFails R c (fst ?r1) tid tg"
    using tagFails_cong [OF R, of "fst ?r1" st tid c tg]
      tagLoop_states [of R c d ts "(st, [])" tgs1]
      tagLoop_other [OF dist, of R c d ts "(st, [])"] f
    by simp
  have step: "tagStep R c d ts ?r1 (tid, tg) = ((fst ?r1)\<lparr>logged := logged (fst ?r1) @ [?e]\<rparr>, snd ?r1)"
    using tagStep_fails [OF f1, of d ts "snd ?r1"] by simp
  have whole: "tagLoop R c d ts (st, []) (data_tags st)
      = tagLoop R c d ts ((fst ?r1)\<lparr>logged := logged (fst ?r1) @ [?e]\<rparr>, snd ?r1) tgs2"
    using step by (simp add: tags tagLoop_def)
  have rest: "tagLoop R c d ts (st, []) (tgs1 @ tgs2) = tagLoop R c d ts (fst ?r1, snd ?r1) tgs2"
    by (simp add: tagLoop_def)
  have a: "outcome (fst (tagLoop R c d ts (st, []) (data_tags st)))
            = outcome (fst (tagLoop R c d ts (st, []) (tgs1 @ tgs2)))
        \<and> snd (tagLoop R c d ts (st, []) (data_tags st)) = snd (tagLoop R c d ts (st, []) (tgs1 @ tgs2))"
    using tagLoop_outcome [OF R, of "((fst ?r1)\<lparr>logged := logged (fst ?r1) @ [?e]\<rparr>, snd ?r1)"
        "(fst ?r1, snd ?r1)" c d ts tgs2]
    by (simp only: whole rest fst_conv snd_conv outcome_upd1)
  have b: "outcome (fst (tagLoop R c d ts (st, []) (tgs1 @ tgs2)))
            = outcome (fst (tagLoop R c d ts (?st', []) (tgs1 @ tgs2)))
        \<and> snd (tagLoop R c d ts (st, []) (tgs1 @ tgs2)) = snd (tagLoop R c d ts (?st', []) (tgs1 @ tgs2))"
    using tagLoop_outcome [OF R, of "(st, [])" "(?st', [])" c d ts "tgs1 @ tgs2"]
    by (simp add: outcome_def)
  show "outcome (pollingCycle R c d ts st) = outcome (pollingCycle R c d ts ?st')"
    using a b afterLoop_outcome [of "tagLoop R c d ts (st, []) (data_tags st)"
        "tagLoop R c d ts (?st', []) (tgs1 @ tgs2)" ts]
    by (simp add: pollingCycle_def)
  obtain l where l: "logged (fst (tagLoop R c d ts ((fst ?r1)\<lparr>logged := logged (fst ?r1) @ [?e]\<rparr>, snd ?r1) tgs2))
      = (logged (fst ?r1) @ [?e]) @ l"
    using tagLoop_log [of R c d ts "((fst ?r1)\<lparr>logged := logged (fst ?r1) @ [?e]\<rparr>, snd ?r1)" tgs2]
    by auto
  have "logged (pollingCycle R c d ts st) = (logged (fst ?r1) @ [?e]) @ l"
    by (simp only: pollingCycle_def afterLoop_logged whole l)
  then show "?e \<in> set (logged (pollingCycle R c d ts st))"
    by simp
qed

text \<open>
  C5. A tag whose value cannot be resolved or composed costs one line in the log and
  nothing else: its step of the loop returns the state it got with the error logged and
  the \<^verbatim>\<open>changed\<close> object untouched. For every configuration (the tag ids are the keys of
  \<^verbatim>\<open>data.tags\<close>, so the failing id does not occur before its own entry) the cycle with
  the failing tag ends in the same state as the cycle without it, apart from the log and
  the configuration itself: the same cache, the same events, the same DAQ hand-off. And
  every cycle that reaches the loop ends with the value event for the final cache and, if
  a DAQ function is bound and \<^verbatim>\<open>changed\<close> is not empty, with the hand-off of
  \<^verbatim>\<open>changed\<close>.
\<close>

theorem tag_failure_isolated:
  "(tagFails R c st tid tg \<longrightarrow>
      tagStep R c d ts (st, changed) (tid, tg)
        = (st\<lparr>logged := logged st @ [Err (''read tag '' @ t_name tg @ '' error'')]\<rparr>, changed))
   \<and> (data_tags st = tgs1 @ (tid, tg) # tgs2 \<and> tid \<notin> fst ` set tgs1
        \<and> tagFails easy_resolveTagValue c st tid tg \<longrightarrow>
      outcome (pollingCycle easy_resolveTagValue c d ts st)
        = outcome (pollingCycle easy_resolveTagValue c d ts (st\<lparr>data_tags := tgs1 @ tgs2\<rparr>))
      \<and> Err (''read tag '' @ t_name tg @ '' error'')
           \<in> set (logged (pollingCycle easy_resolveTagValue c d ts st)))
   \<and> (data_tags st = tgs1 @ (tid, tg) # tgs2 \<and> tid \<notin> fst ` set tgs1
        \<and> tagFails mps_resolveTagValue c st tid tg \<longrightarrow>
      outcome (pollingCycle mps_resolveTagValue c d ts st)
        = outcome (pollingCycle mps_resolveTagValue c d ts (st\<lparr>data_tags := tgs1 @ tgs2\<rparr>))
      \<and> Err (''read tag '' @ t_name tg @ '' error'')
           \<in> set (logged (pollingCycle mps_resolveTagValue c d ts st)))
   \<and> events (pollingCycle R c d ts st)
        = events st @ [ValueChanged (varsValue (pollingCycle R c d ts st))]
            @ (if lastStatus st \<noteq> ''connect-ok'' then [StatusChanged ''connect-ok''] else [])
   \<and> daqCalls (pollingCycle R c d ts st)
        = daqCalls st @ (if addDaq st \<and> snd (tagLoop R c d ts (st, []) (data_tags st)) \<noteq> []
                         then [snd (tagLoop R c d ts (st, []) (data_tags st))] else [])"
proof -
  have a: "tagFails R c st tid tg \<longrightarrow>
      tagStep R c d ts (st, changed) (tid, tg)
        = (st\<lparr>logged := logged st @ [Err (''read tag '' @ t_name tg @ '' error'')]\<rparr>, changed)"
    using tagStep_fails by blast
  have e: "data_tags st = tgs1 @ (tid, tg) # tgs2 \<and> tid \<notin> fst ` set tgs1
        \<and> tagFails easy_resolveTagValue c st tid tg \<longrightarrow>
      outcome (pollingCycle easy_resolveTagValue c d ts st)
        = outcome (pollingCycle easy_resolveTagValue c d ts (st\<lparr>data_tags := tgs1 @ tgs2\<rparr>))
      \<and> Err (''read tag '' @ t_name tg @ '' error'')
           \<in> set (logged (pollingCycle easy_resolveTagValue c d ts st))"
    using cycle_without_failing_tag [OF readsStates_easy, of st tgs1 tid tg tgs2 c d ts] by blast
  have m: "data_tags st = tgs1 @ (tid, tg) # tgs2 \<and> tid \<notin> fst ` set tgs1
        \<and> tagFails mps_resolveTagValue c st tid tg \<longrightarrow>
      outcome (pollingCycle mps_resolveTagValue c d ts st)
        = outcome (pollingCycle mps_resolveTagValue c d ts (st\<lparr>data_tags := tgs1 @ tgs2\<rparr>))
      \<and> Err (''read tag '' @ t_name tg @ '' error'')
           \<in> set (logged (pollingCycle mps_resolveTagValue c d ts st))"
    using cycle_without_failing_tag [OF readsStates_mps, of st tgs1 tid tg tgs2 c d ts] by blast
  show ?thesis
    using a e m pollingCycle_effect [of R c d ts st] by blast
qed

text \<open>
  The witness: the example driver has the tag \<^verbatim>\<open>bad\<close>, whose composition throws, before
  the tag \<^verbatim>\<open>level\<close>. The cycle caches and hands over \<^verbatim>\<open>level\<close> exactly as the cycle of
  the driver without \<^verbatim>\<open>bad\<close> does.
\<close>

theorem tag_failure_isolated_witness:
  "data_tags exampleLoaded = [] @ (''id0'', badTag) # [(''id1'', exampleTag)]
   \<and> ''id0'' \<notin> fst ` set ([] :: (string \<times> tag) list)
   \<and> tagFails easy_resolveTagValue exampleCompose exampleLoaded ''id0'' badTag
   \<and> outcome (pollingCycle easy_resolveTagValue exampleCompose saveChanged 7 exampleLoaded)
       = outcome (pollingCycle easy_resolveTagValue exampleCompose saveChanged 7
                    (exampleLoaded\<lparr>data_tags := [] @ [(''id1'', exampleTag)]\<rparr>))
   \<and> Err (''read tag '' @ t_name badTag @ '' error'')
        \<in> set (logged (pollingCycle easy_resolveTagValue exampleCompose saveChanged 7 exampleLoaded))
   \<and> varsValue (pollingCycle easy_resolveTagValue exampleCompose saveChanged 7 exampleLoaded)
       = [(''id1'', exampleSample)]
   \<and> daqCalls (pollingCycle easy_resolveTagValue exampleCompose saveChanged 7 exampleLoaded)
       = [[(''id1'', exampleSample)]]"
proof -
  have h: "data_tags exampleLoaded = [] @ (''id0'', badTag) # [(''id1'', exampleTag)]
     \<and> ''id0'' \<notin> fst ` set ([] :: (string \<times> tag) list)
     \<and> tagFails easy_resolveTagValue exampleCompose exampleLoaded ''id0'' badTag"
    by (simp add: exampleLoaded_def exampleDriver_def newDriver_def tagFails_def badTag_def
        easy_resolveTagValue_def tagAddr_def exampleCompose_def Let_def builtins)
  have v: "varsValue (pollingCycle easy_resolveTagValue exampleCompose saveChanged 7 exampleLoaded)
       = [(''id1'', exampleSample)]"
    by (simp add: exampleLoaded_def exampleDriver_def newDriver_def badTag_def exampleTag_def
        exampleSample_def exampleCompose_def saveChanged_def pollingCycle_def afterLoop_def
        tagLoop_def tagStep_def easy_resolveTagValue_def tagAddr_def emitValues_def emitStatus_def
        Let_def builtins)
  have q: "daqCalls (pollingCycle easy_resolveTagValue exampleCompose saveChanged 7 exampleLoaded)
       = [[(''id1'', exampleSample)]]"
    by (simp add: exampleLoaded_def exampleDriver_def newDriver_def badTag_def exampleTag_def
        exampleSample_def exampleCompose_def saveChanged_def pollingCycle_def afterLoop_def
        tagLoop_def tagStep_def easy_resolveTagValue_def tagAddr_def emitValues_def emitStatus_def
        Let_def builtins)
  show ?thesis
    using tag_failure_isolated [of easy_resolveTagValue exampleCompose exampleLoaded "''id0''" badTag
        saveChanged 7 "[]" "[]" "[(''id1'', exampleTag)]"] h v q
    by blast
qed

text \<open>
  The witness of C10: one polling cycle of the example driver. The DAQ check is handed
  the sample of \<^verbatim>\<open>level\<close> with \<^verbatim>\<open>changed\<close> set (it asks for exactly those samples, and the
  sample is handed over), and the sample in the cache, in the event and in the hand-off
  has \<^verbatim>\<open>changed\<close> false.
\<close>

theorem changed_flag_never_exposed_witness:
  "changedHidden exampleDriver
   \<and> changedHidden (easy_polling plainConv exampleCompose saveChanged 7 (Returned (Some exampleVM)) exampleDriver)
   \<and> getValues (easy_polling plainConv exampleCompose saveChanged 7 (Returned (Some exampleVM)) exampleDriver)
       = [(''id1'', exampleSample)]
   \<and> events (easy_polling plainConv exampleCompose saveChanged 7 (Returned (Some exampleVM)) exampleDriver)
       = [ValueChanged [(''id1'', exampleSample)]]
   \<and> daqCalls (easy_polling plainConv exampleCompose saveChanged 7 (Returned (Some exampleVM)) exampleDriver)
       = [[(''id1'', exampleSample)]]
   \<and> \<not> s_changed exampleSample"
proof -
  have h: "changedHidden exampleDriver"
    by (simp add: changedHidden_def exampleDriver_def newDriver_def cacheClean_def)
  have st: "easy_polling plainConv exampleCompose saveChanged 7 (Returned (Some exampleVM)) exampleDriver
      = exampleLoaded\<lparr>luaEngine := True, lastTimestampValue := Some 7,
           varsValue := [(''id1'', exampleSample)],
           events := [ValueChanged [(''id1'', exampleSample)]],
           daqCalls := [[(''id1'', exampleSample)]],
           logged := [Err ''read tag bad error'']\<rparr>"
    by (simp add: exampleLoaded_def exampleDriver_def exampleVM_def newDriver_def badTag_def
        exampleTag_def exampleSample_def exampleCompose_def saveChanged_def easy_polling_def
        easy_polling_begin_def easy_polling_end_def easy_checkWorking_def getPACStates_end_def
        extractLuaState_def lua_get_def pollingCycle_def afterLoop_def tagLoop_def tagStep_def
        easy_resolveTagValue_def tagAddr_def emitValues_def emitStatus_def Let_def builtins
        LUA_MINSTACK_def plainConv_def)
  show ?thesis
    using changed_flag_never_exposed [of "[]" exampleDriver plainConv exampleCompose saveChanged 7
        "Returned (Some exampleVM)"] h
    by (simp add: st getValues_def exampleSample_def)
qed

end
